theory Spec2Isabelle
  imports Main "HOL-Library.Multiset"
begin

section \<open>Data model\<close>

text \<open>
  The driver script \<^verbatim>\<open>bin/testcode.py\<close> works on objects of the testcode2 library.
  Their classes are not part of the script, so the objects are modelled by the attributes
  the script reads and writes.

  Modelled from the spec: the class \<^verbatim>\<open>TestProgram\<close> (executable, test id, benchmark
  id, optional version-control handle). \<open>vcs_code_id\<close> is \<open>Some c\<close> when
  \<^verbatim>\<open>program.vcs and program.vcs.vcs\<close> holds, \<open>c\<close> being what
  \<^verbatim>\<open>program.vcs.get_code_id()\<close> returns.
\<close>

record test_program =
  exe :: string
  test_id :: string
  benchmark :: string
  vcs_code_id :: "string option"

text \<open>
  Modelled from the spec: the class \<^verbatim>\<open>Test\<close> (path, sub-runs, processor
  requirement with its bounds, the override flag, the owning program and the mutable
  status triple). \<open>status\<close> is the triple \<open>(passed, warned, ran)\<close> that
  \<^verbatim>\<open>test.get_status()\<close> returns. Python integers are unbounded: \<open>int\<close>.
\<close>

record test =
  path :: string
  inputs_args :: "(string \<times> string) list"
  nprocs :: int
  min_nprocs :: int
  max_nprocs :: int
  override_nprocs :: bool
  test_program :: test_program
  status :: "int \<times> int \<times> int"

definition get_status :: "test \<Rightarrow> int \<times> int \<times> int" where
  "get_status t = status t"

section \<open>Status aggregation\<close>

text \<open>
  \<^verbatim>\<open>statuses = [test.get_status() for test in tests]\<close> followed by the three sums
  over the components, as both \<^verbatim>\<open>end_status\<close> and \<^verbatim>\<open>make_benchmarks\<close>
  compute them.
\<close>

definition statuses :: "test list \<Rightarrow> (int \<times> int \<times> int) list" where
  "statuses tests = map get_status tests"

definition npassed :: "test list \<Rightarrow> int" where
  "npassed tests = sum_list (map (\<lambda>s. fst s) (statuses tests))"

definition nwarning :: "test list \<Rightarrow> int" where
  "nwarning tests = sum_list (map (\<lambda>s. fst (snd s)) (statuses tests))"

definition nran :: "test list \<Rightarrow> int" where
  "nran tests = sum_list (map (\<lambda>s. snd (snd s)) (statuses tests))"

text \<open>
  The footer printed by \<^verbatim>\<open>end_status\<close>. The numbers are kept as numbers: the
  message is the tuple that the format string is applied to.
\<close>

datatype add_info =
    Warn_and_skipped int string int
  | Skipped_only int
  | Warn_only int string
  | No_info

datatype footer =
    Verbose_footer string int int string add_info
  | Terse_footer int int add_info

definition end_status :: "test list \<Rightarrow> int \<Rightarrow> bool \<Rightarrow> footer \<times> int" where
  "end_status tests skipped verbose =
     (let nwarn = nwarning tests;
          nrun = nran tests;
          npass = npassed tests + nwarn;
          warning = (if nwarn = 1 then ''warning'' else ''warnings'');
          test_word = (if nrun = 1 then ''test'' else ''tests'');
          add_info_msg =
            (if skipped \<noteq> 0 \<and> nwarn \<noteq> 0 then Warn_and_skipped nwarn warning skipped
             else if skipped \<noteq> 0 then Skipped_only skipped
             else if nwarn \<noteq> 0 then Warn_only nwarn warning
             else No_info);
          msg =
            (if verbose then
               (if npass = nrun then Verbose_footer '''' npass nrun test_word add_info_msg
                else Verbose_footer ''ERROR: only '' npass nrun test_word add_info_msg)
             else Terse_footer npass nrun add_info_msg);
          ret_val = (if nrun \<noteq> npass then 1 else 0)
      in (msg, ret_val))"

section \<open>Running tests\<close>

text \<open>
  Exceptions are values. \<open>TestCodeError m n\<close> is the error of \<^verbatim>\<open>run_tests\<close> whose
  message reports that at least \<open>m\<close> cores are needed and \<open>n\<close> are available;
  \<open>ValueError\<close> is what Python's \<^verbatim>\<open>max\<close> raises on an empty sequence and what a
  \<^verbatim>\<open>BoundedSemaphore\<close> raises when released above its initial value;
  \<open>RunTestRaised\<close> stands for any exception that leaves \<^verbatim>\<open>test.run_test\<close>;
  \<open>EOFError\<close> is raised by a prompt at the end of the input; \<open>OSError\<close> by a
  directory change that fails; \<open>ParsingError\<close> by reading a
  file that is not a configuration file; \<open>NoSectionError\<close> by setting an option in a
  section the configuration lacks; \<open>IOError\<close> by opening a file that cannot be written.
\<close>

datatype error = TestCodeError int int | ValueError | RunTestRaised | EOFError | OSError
  | ParsingError | NoSectionError | IOError

text \<open>
  \<^verbatim>\<open>test.run_test\<close> belongs to the library. For the driver it is a call that either
  returns or raises; which of the two happens for the test at a given position is a
  parameter of the model.
\<close>

datatype outcome = Returns | Raises

subsection \<open>The worker threads\<close>

text \<open>
  The program points of \<^verbatim>\<open>run_test_worker\<close>:
  \<^item> \<open>Not_started\<close>: the thread object exists, \<^verbatim>\<open>job.start()\<close> has not been called;
  \<^item> \<open>At_lock\<close>: before \<^verbatim>\<open>semaphore_lock.acquire()\<close>;
  \<^item> \<open>Acquire_loop k\<close>: in the first \<^verbatim>\<open>for\<close> loop, holding the lock, \<open>k\<close>
    iterations done;
  \<^item> \<open>In_run_test\<close>: the lock is released and \<^verbatim>\<open>test.run_test\<close> is executing;
  \<^item> \<open>Release_loop k\<close>: in the second \<^verbatim>\<open>for\<close> loop, \<open>k\<close> iterations done;
  \<^item> \<open>Finished\<close>: the worker returned;
  \<^item> \<open>Died\<close>: an exception ended the thread.
  \<open>acquired\<close> and \<open>released\<close> count the calls of \<^verbatim>\<open>semaphore.acquire()\<close> that
  returned and the calls of \<^verbatim>\<open>semaphore.release()\<close> that succeeded.
\<close>

datatype pc = Not_started | At_lock | Acquire_loop nat | In_run_test | Release_loop nat
  | Finished | Died

record worker =
  pc :: pc
  acquired :: nat
  released :: nat

text \<open>
  The shared state of one call of \<^verbatim>\<open>run_tests\<close>: the bounded semaphore (its value
  and its initial value), the owner of \<^verbatim>\<open>slock\<close>, the workers in the order of the
  test list, the number of jobs the main thread has started, and the positions of the
  tests whose \<^verbatim>\<open>run_test\<close> has been called, in the order of the calls.
\<close>

record sched =
  sem_value :: nat
  sem_bound :: nat
  lock_owner :: "nat option"
  workers :: "worker list"
  started :: nat
  run_calls :: "nat list"

text \<open>\<^verbatim>\<open>nprocs_used = max(1, test.nprocs)\<close>\<close>

definition nprocs_used :: "test \<Rightarrow> nat" where
  "nprocs_used t = nat (max 1 (nprocs t))"

definition initial :: "test list \<Rightarrow> nat \<Rightarrow> sched" where
  "initial tests cap =
     \<lparr>sem_value = cap, sem_bound = cap, lock_owner = None,
      workers = replicate (length tests) \<lparr>pc = Not_started, acquired = 0, released = 0\<rparr>,
      started = 0, run_calls = []\<rparr>"

definition set_worker :: "nat \<Rightarrow> worker \<Rightarrow> sched \<Rightarrow> sched" where
  "set_worker i w s = s\<lparr>workers := (workers s)[i := w]\<rparr>"

text \<open>
  One atomic step of worker \<open>i\<close>; \<open>None\<close> when the worker cannot move (it is blocked on
  the lock or on the semaphore, is not started or has ended). A blocking
  \<^verbatim>\<open>semaphore.acquire()\<close> returns only when the value is positive and decrements it;
  \<^verbatim>\<open>semaphore.release()\<close> of a bounded semaphore raises \<open>ValueError\<close> when the value
  has reached the initial value, and increments it otherwise.
\<close>

definition worker_step :: "test list \<Rightarrow> (nat \<Rightarrow> outcome) \<Rightarrow> nat \<Rightarrow> sched \<Rightarrow> sched option" where
  "worker_step tests oc i s =
     (if i < length (workers s) \<and> i < length tests then
        (let w = workers s ! i; n = nprocs_used (tests ! i) in
         case pc w of
           Not_started \<Rightarrow> None
         | At_lock \<Rightarrow>
             (if lock_owner s = None
              then Some (set_worker i (w\<lparr>pc := Acquire_loop 0\<rparr>) (s\<lparr>lock_owner := Some i\<rparr>))
              else None)
         | Acquire_loop k \<Rightarrow>
             (if k < n then
                (if 0 < sem_value s
                 then Some (set_worker i (w\<lparr>pc := Acquire_loop (Suc k), acquired := Suc (acquired w)\<rparr>)
                        (s\<lparr>sem_value := sem_value s - 1\<rparr>))
                 else None)
              else Some (set_worker i (w\<lparr>pc := In_run_test\<rparr>)
                     (s\<lparr>lock_owner := None, run_calls := run_calls s @ [i]\<rparr>)))
         | In_run_test \<Rightarrow>
             (case oc i of
                Returns \<Rightarrow> Some (set_worker i (w\<lparr>pc := Release_loop 0\<rparr>) s)
              | Raises \<Rightarrow> Some (set_worker i (w\<lparr>pc := Died\<rparr>) s))
         | Release_loop k \<Rightarrow>
             (if k < n then
                (if sem_value s < sem_bound s
                 then Some (set_worker i (w\<lparr>pc := Release_loop (Suc k), released := Suc (released w)\<rparr>)
                        (s\<lparr>sem_value := sem_value s + 1\<rparr>))
                 else Some (set_worker i (w\<lparr>pc := Died\<rparr>) s))
              else Some (set_worker i (w\<lparr>pc := Finished\<rparr>) s))
         | Finished \<Rightarrow> None
         | Died \<Rightarrow> None)
      else None)"

text \<open>
  The main thread: \<^verbatim>\<open>for job in jobs: job.start()\<close>, then the joins, which change
  nothing.
\<close>

definition main_step :: "sched \<Rightarrow> sched option" where
  "main_step s =
     (if started s < length (workers s)
      then Some (set_worker (started s) ((workers s ! started s)\<lparr>pc := At_lock\<rparr>)
             (s\<lparr>started := Suc (started s)\<rparr>))
      else None)"

datatype choice = Main | Worker nat

definition step :: "test list \<Rightarrow> (nat \<Rightarrow> outcome) \<Rightarrow> choice \<Rightarrow> sched \<Rightarrow> sched option" where
  "step tests oc c s = (case c of Main \<Rightarrow> main_step s | Worker i \<Rightarrow> worker_step tests oc i s)"

text \<open>
  An interleaving is the list of the scheduler's choices. A choice that cannot move
  leaves the state as it is, so every list of choices leads to a reachable state and
  every reachable state is led to by some list.
\<close>

fun exec :: "test list \<Rightarrow> (nat \<Rightarrow> outcome) \<Rightarrow> choice list \<Rightarrow> sched \<Rightarrow> sched" where
  "exec tests oc [] s = s"
| "exec tests oc (c # cs) s =
     exec tests oc cs (case step tests oc c s of None \<Rightarrow> s | Some s' \<Rightarrow> s')"

subsection \<open>\<^verbatim>\<open>run_tests\<close>\<close>

text \<open>
  What a call of \<^verbatim>\<open>run_tests\<close> has done: the tests whose \<^verbatim>\<open>run_test\<close> was
  called, the scheduling state when a semaphore, a lock and the threads were created
  (\<open>None\<close> when they were not) and the exception that left \<^verbatim>\<open>run_tests\<close>, if any.
  In the concurrent branch the report is taken after the given interleaving, which may be
  any prefix of a run.
\<close>

record run_report =
  called :: "nat list"
  gate :: "sched option"
  raised :: "error option"

text \<open>A string or \<^verbatim>\<open>None\<close> in a condition: \<^verbatim>\<open>None\<close> and the empty string are false.\<close>

definition truthy :: "string option \<Rightarrow> bool" where
  "truthy x = (case x of None \<Rightarrow> False | Some v \<Rightarrow> v \<noteq> [])"

text \<open>
  The sequential branch: \<^verbatim>\<open>for test in tests: test.run_test(verbose, cluster_queue)\<close>.
  An exception of \<^verbatim>\<open>run_test\<close> ends the loop and leaves \<^verbatim>\<open>run_tests\<close>.
\<close>

fun run_sequential :: "(nat \<Rightarrow> outcome) \<Rightarrow> nat list \<Rightarrow> nat list \<times> error option" where
  "run_sequential oc [] = ([], None)"
| "run_sequential oc (i # js) =
     (case oc i of
        Raises \<Rightarrow> ([i], Some RunTestRaised)
      | Returns \<Rightarrow> (case run_sequential oc js of (c, e) \<Rightarrow> (i # c, e)))"

definition run_tests ::
  "test list \<Rightarrow> string option \<Rightarrow> int \<Rightarrow> (nat \<Rightarrow> outcome) \<Rightarrow> choice list \<Rightarrow> run_report" where
  "run_tests tests cluster_queue tot_nprocs oc schedule =
     (let tot = (if tot_nprocs \<le> 0 \<and> truthy cluster_queue
                 then sum_list (map nprocs tests) else tot_nprocs)
      in if tot > 0 then
           (case tests of
              [] \<Rightarrow> \<lparr>called = [], gate = None, raised = Some ValueError\<rparr>
            | t # ts \<Rightarrow>
                (let max_test_nprocs = fold max (map nprocs ts) (nprocs t) in
                 if max_test_nprocs > tot
                 then \<lparr>called = [], gate = None,
                        raised = Some (TestCodeError max_test_nprocs tot)\<rparr>
                 else (let s = exec tests oc schedule (initial tests (nat tot))
                       in \<lparr>called = run_calls s, gate = Some s, raised = None\<rparr>)))
         else (case run_sequential oc [0..<length tests] of
                 (c, e) \<Rightarrow> \<lparr>called = c, gate = None, raised = e\<rparr>))"

text \<open>
  The units committed to the tests that are executing: the sum of
  \<^verbatim>\<open>max(1, test.nprocs)\<close> over the workers inside \<^verbatim>\<open>test.run_test\<close>.
\<close>

definition running_units :: "test list \<Rightarrow> sched \<Rightarrow> nat" where
  "running_units tests s =
     sum_list (map (\<lambda>i. if pc (workers s ! i) = In_run_test then nprocs_used (tests ! i) else 0)
       [0..<length tests])"

subsection \<open>The invariant of the scheduling state\<close>

text \<open>
  What holds of a worker at each program point, \<open>n\<close> being its \<^verbatim>\<open>nprocs_used\<close>
  and \<open>out\<close> the outcome of its \<^verbatim>\<open>run_test\<close>; and what holds of the shared state:
  the units missing from the semaphore are exactly those the workers hold, the lock is
  owned by the worker inside the first loop, and a job that is not started has not moved.
\<close>

definition worker_ok :: "nat \<Rightarrow> outcome \<Rightarrow> worker \<Rightarrow> bool" where
  "worker_ok n out w =
     (case pc w of
        Not_started \<Rightarrow> acquired w = 0 \<and> released w = 0
      | At_lock \<Rightarrow> acquired w = 0 \<and> released w = 0
      | Acquire_loop k \<Rightarrow> acquired w = k \<and> released w = 0 \<and> k \<le> n
      | In_run_test \<Rightarrow> acquired w = n \<and> released w = 0
      | Release_loop k \<Rightarrow> acquired w = n \<and> released w = k \<and> k \<le> n \<and> out = Returns
      | Finished \<Rightarrow> acquired w = n \<and> released w = n \<and> out = Returns
      | Died \<Rightarrow> acquired w = n \<and> released w = 0 \<and> out = Raises)"

definition is_acquiring :: "worker \<Rightarrow> bool" where
  "is_acquiring w = (case pc w of Acquire_loop k \<Rightarrow> True | _ \<Rightarrow> False)"

definition sched_inv :: "test list \<Rightarrow> (nat \<Rightarrow> outcome) \<Rightarrow> sched \<Rightarrow> bool" where
  "sched_inv tests oc s =
     (length (workers s) = length tests
      \<and> sem_value s + sum_list (map acquired (workers s))
          = sem_bound s + sum_list (map released (workers s))
      \<and> list_all (\<lambda>i. worker_ok (nprocs_used (tests ! i)) (oc i) (workers s ! i)) [0..<length tests]
      \<and> list_all (\<lambda>i. is_acquiring (workers s ! i) = (lock_owner s = Some i)) [0..<length tests]
      \<and> list_all (\<lambda>i. started s \<le> i \<longrightarrow> pc (workers s ! i) = Not_started) [0..<length tests])"

text \<open>
  For the release phase: a worker that has left the first loop, and the number of its own
  steps that remain until it has returned.
\<close>

definition steps_left :: "nat \<Rightarrow> worker \<Rightarrow> nat" where
  "steps_left n w =
     (case pc w of In_run_test \<Rightarrow> n + 2 | Release_loop k \<Rightarrow> n - k + 1 | _ \<Rightarrow> 0)"

definition past_acquire :: "worker \<Rightarrow> bool" where
  "past_acquire w =
     (case pc w of In_run_test \<Rightarrow> True | Release_loop k \<Rightarrow> True | Finished \<Rightarrow> True
      | _ \<Rightarrow> False)"

section \<open>Initialisation: the number of processors\<close>

text \<open>
  The body of the loop \<^verbatim>\<open>for test in tests\<close> in \<^verbatim>\<open>init_tests\<close>: the global
  value is assigned unless the test overrides it, then the value is raised to
  \<open>min_nprocs\<close> and lowered to \<open>max_nprocs\<close>, in this order.
\<close>

definition set_test_nprocs :: "int \<Rightarrow> test \<Rightarrow> test" where
  "set_test_nprocs nprocs_opt t =
     (let t1 = (if \<not> override_nprocs t then t\<lparr>nprocs := nprocs_opt\<rparr> else t);
          t2 = (if nprocs t1 < min_nprocs t1 then t1\<lparr>nprocs := min_nprocs t1\<rparr> else t1);
          t3 = (if nprocs t2 > max_nprocs t2 then t2\<lparr>nprocs := max_nprocs t2\<rparr> else t2)
      in t3)"

text \<open>\<^verbatim>\<open>if nprocs >= 0: for test in tests: ...\<close>\<close>

definition init_tests_set_nprocs :: "int \<Rightarrow> test list \<Rightarrow> test list" where
  "init_tests_set_nprocs nprocs_opt tests =
     (if nprocs_opt \<ge> 0 then map (set_test_nprocs nprocs_opt) tests else tests)"

text \<open>
  \<^verbatim>\<open>init_tests\<close> from the tests that \<^verbatim>\<open>parse_jobconfig\<close> returned on: the
  processors are set, then the categories given on the command line select the tests.
  The parsers and \<^verbatim>\<open>select_tests\<close> belong to the library; the selection is a
  parameter. Setting the test id of the programs touches no test and is left out.
\<close>

definition init_tests ::
  "(test list \<Rightarrow> string list \<Rightarrow> test list) \<Rightarrow> test list \<Rightarrow> string list \<Rightarrow> int \<Rightarrow> test list" where
  "init_tests select_tests parsed categories nprocs_opt =
     (let tests = init_tests_set_nprocs nprocs_opt parsed
      in if categories \<noteq> [] then select_tests tests categories else tests)"

section \<open>Comparing and diffing tests\<close>

text \<open>
  What \<^verbatim>\<open>compare_tests\<close> and \<^verbatim>\<open>diff_tests\<close> take from the library and from the
  operating system:
  \<^item> \<^verbatim>\<open>testcode2.FILESTEM['test']\<close> and \<^verbatim>\<open>testcode2.FILESTEM['benchmark']\<close>;
  \<^item> \<^verbatim>\<open>testcode2.util.testcode_filename(stem, file_id, inp, args)\<close>;
  \<^item> \<^verbatim>\<open>os.path.join\<close>;
  \<^item> \<^verbatim>\<open>os.path.exists\<close>, which resolves a path from the working directory it is given
    first;
  \<^item> \<^verbatim>\<open>os.chdir\<close>: the new working directory from the current one and the path,
    \<open>None\<close> when the directory cannot be entered (\<open>OSError\<close>);
  \<^item> \<^verbatim>\<open>test.verify_job(inp, args, verbose)\<close>.

  Modelled from the spec: \<^verbatim>\<open>verify_job\<close> compares one sub-run with its benchmark and
  records the outcome in the status of the test; in the model it yields the new status
  triple of the test. Files neither appear nor disappear while the tests are compared or
  diffed.
\<close>

record env =
  filestem_test :: string
  filestem_benchmark :: string
  testcode_filename :: "string \<Rightarrow> string \<Rightarrow> string \<Rightarrow> string \<Rightarrow> string"
  path_join :: "string \<Rightarrow> string \<Rightarrow> string"
  path_exists :: "string \<Rightarrow> string \<Rightarrow> bool"
  chdir :: "string \<Rightarrow> string \<Rightarrow> string option"
  verify_job :: "test \<Rightarrow> string \<Rightarrow> string \<Rightarrow> bool \<Rightarrow> int \<times> int \<times> int"

subsection \<open>\<^verbatim>\<open>compare_tests\<close>\<close>

text \<open>
  The state of the loops: the test being compared, \<^verbatim>\<open>nskipped\<close>, the lines printed
  and the calls of \<^verbatim>\<open>verify_job\<close> made so far (path of the test, input, arguments).
\<close>

type_synonym compare_acc = "int \<times> string list \<times> (string \<times> string \<times> string) list"

definition compare_test_file :: "env \<Rightarrow> test \<Rightarrow> string \<times> string \<Rightarrow> string" where
  "compare_test_file e t ia =
     path_join e (path t)
       (testcode_filename e (filestem_test e) (test_id (test_program t)) (fst ia) (snd ia))"

definition compare_subrun ::
  "env \<Rightarrow> string \<Rightarrow> bool \<Rightarrow> test \<times> compare_acc \<Rightarrow> string \<times> string \<Rightarrow> test \<times> compare_acc" where
  "compare_subrun e cwd verbose st ia =
     (case st of (t, nskipped, out, calls) \<Rightarrow>
        (let test_file = compare_test_file e t ia in
         if path_exists e cwd test_file
         then (t\<lparr>status := verify_job e t (fst ia) (snd ia) verbose\<rparr>, nskipped, out,
               calls @ [(path t, fst ia, snd ia)])
         else (t, nskipped + 1,
               out @ (if verbose
                      then [''Skipping comparison.  Test file does not exist: '' @ test_file
                              @ ''.'' @ [CHR 0x0A]]
                      else []),
               calls)))"

fun compare_loop ::
  "env \<Rightarrow> string \<Rightarrow> bool \<Rightarrow> test list \<Rightarrow> compare_acc \<Rightarrow> test list \<times> compare_acc" where
  "compare_loop e cwd verbose [] acc = ([], acc)"
| "compare_loop e cwd verbose (t # ts) acc =
     (case foldl (compare_subrun e cwd verbose) (t, acc) (inputs_args t) of
        (t', acc') \<Rightarrow>
          (case compare_loop e cwd verbose ts acc' of (ts', acc'') \<Rightarrow> (t' # ts', acc'')))"

text \<open>
  \<^verbatim>\<open>compare_tests\<close> returns \<^verbatim>\<open>nskipped\<close>; the model returns with it the tests as
  the call leaves them, the lines printed and the calls of \<^verbatim>\<open>verify_job\<close>.
\<close>

record compare_report =
  compared_tests :: "test list"
  nskipped :: int
  compare_out :: "string list"
  verify_calls :: "(string \<times> string \<times> string) list"

definition compare_tests :: "env \<Rightarrow> string \<Rightarrow> test list \<Rightarrow> bool \<Rightarrow> compare_report" where
  "compare_tests e cwd tests verbose =
     (case compare_loop e cwd verbose tests (0, [], []) of
        (tests', n, out, calls) \<Rightarrow>
          \<lparr>compared_tests = tests', nskipped = n, compare_out = out, verify_calls = calls\<rparr>)"

text \<open>The sub-runs of a list of tests, in the order of the two loops.\<close>

definition sub_runs :: "test list \<Rightarrow> (test \<times> string \<times> string) list" where
  "sub_runs tests = concat (map (\<lambda>t. map (\<lambda>ia. (t, ia)) (inputs_args t)) tests)"

definition has_test_file :: "env \<Rightarrow> string \<Rightarrow> test \<Rightarrow> string \<times> string \<Rightarrow> bool" where
  "has_test_file e cwd t ia = path_exists e cwd (compare_test_file e t ia)"

definition verify :: "env \<Rightarrow> bool \<Rightarrow> test \<Rightarrow> string \<times> string \<Rightarrow> test" where
  "verify e verbose t ia = t\<lparr>status := verify_job e t (fst ia) (snd ia) verbose\<rparr>"

text \<open>
  The line that \<^verbatim>\<open>compare_tests\<close> prints for a skipped sub-run when verbose.
\<close>

definition skip_line :: "env \<Rightarrow> test \<Rightarrow> string \<times> string \<Rightarrow> string" where
  "skip_line e t ia = ''Skipping comparison.  Test file does not exist: ''
     @ compare_test_file e t ia @ ''.'' @ [CHR 0x0A]"

subsection \<open>\<^verbatim>\<open>diff_tests\<close>\<close>

text \<open>
  The state of the inner loop: the lines printed and the diff commands run, each with
  the directory it ran in.
\<close>

type_synonym diff_acc = "string list \<times> (string \<times> string) list"

definition diff_benchmark :: "env \<Rightarrow> test \<Rightarrow> string \<times> string \<Rightarrow> string" where
  "diff_benchmark e t ia =
     testcode_filename e (filestem_benchmark e) (benchmark (test_program t)) (fst ia) (snd ia)"

definition diff_test_file :: "env \<Rightarrow> test \<Rightarrow> string \<times> string \<Rightarrow> string" where
  "diff_test_file e t ia =
     testcode_filename e (filestem_test e) (test_id (test_program t)) (fst ia) (snd ia)"

definition diff_subrun ::
  "env \<Rightarrow> string \<Rightarrow> string \<Rightarrow> bool \<Rightarrow> test \<Rightarrow> diff_acc \<Rightarrow> string \<times> string \<Rightarrow> diff_acc" where
  "diff_subrun e dir diff_program verbose t acc ia =
     (case acc of (out, cmds) \<Rightarrow>
        (let bench = diff_benchmark e t ia;
             test_file = diff_test_file e t ia;
             out1 = out @ (if verbose
                           then [''Diffing '' @ bench @ '' and '' @ test_file @ '' in ''
                                   @ path t @ ''.'']
                           else [])
         in if \<not> path_exists e dir test_file \<or> \<not> path_exists e dir bench
            then (out1 @ (if verbose
                          then [''Skipping diff: '' @ test_file @ '' does not exist.'']
                          else []),
                  cmds)
            else (out1, cmds @ [(dir, diff_program @ '' '' @ bench @ '' '' @ test_file)])))"

text \<open>
  What a call of \<^verbatim>\<open>diff_tests\<close> leaves: the tests, the lines printed, the commands
  run, the working directory and the exception that left it, if any. The function
  assigns to no attribute of a test and calls no method of one.
\<close>

record diff_report =
  diffed_tests :: "test list"
  diff_out :: "string list"
  diff_cmds :: "(string \<times> string) list"
  diff_cwd :: string
  diff_raised :: "error option"

fun diff_loop :: "env \<Rightarrow> string \<Rightarrow> string \<Rightarrow> bool \<Rightarrow> test list \<Rightarrow> diff_acc
    \<Rightarrow> diff_acc \<times> string \<times> error option" where
  "diff_loop e cwd diff_program verbose [] acc = (acc, cwd, None)"
| "diff_loop e cwd diff_program verbose (t # ts) acc =
     (case chdir e cwd (path t) of
        None \<Rightarrow> (acc, cwd, Some OSError)
      | Some dir \<Rightarrow>
          diff_loop e cwd diff_program verbose ts
            (foldl (diff_subrun e dir diff_program verbose t) acc (inputs_args t)))"

definition diff_tests :: "env \<Rightarrow> string \<Rightarrow> test list \<Rightarrow> string \<Rightarrow> bool \<Rightarrow> diff_report" where
  "diff_tests e cwd tests diff_program verbose =
     (case diff_loop e cwd diff_program verbose tests ([], []) of
        ((out, cmds), cwd', err) \<Rightarrow>
          \<lparr>diffed_tests = tests, diff_out = out, diff_cmds = cmds, diff_cwd = cwd',
           diff_raised = err\<rparr>)"

text \<open>
  For the statements about \<^verbatim>\<open>diff_tests\<close>: both files of a sub-run exist in the
  directory of the test; the diff command of a sub-run; the lines printed for a sub-run
  when verbose; and a sub-run whose test directory can be entered and holds both files.
\<close>

definition both_exist :: "env \<Rightarrow> string \<Rightarrow> test \<Rightarrow> string \<times> string \<Rightarrow> bool" where
  "both_exist e dir t ia =
     (path_exists e dir (diff_test_file e t ia) \<and> path_exists e dir (diff_benchmark e t ia))"

definition diff_command :: "env \<Rightarrow> string \<Rightarrow> test \<Rightarrow> string \<times> string \<Rightarrow> string" where
  "diff_command e diff_program t ia =
     diff_program @ '' '' @ diff_benchmark e t ia @ '' '' @ diff_test_file e t ia"

definition diff_lines :: "env \<Rightarrow> string \<Rightarrow> test \<Rightarrow> string \<times> string \<Rightarrow> string list" where
  "diff_lines e dir t ia =
     [''Diffing '' @ diff_benchmark e t ia @ '' and '' @ diff_test_file e t ia @ '' in ''
        @ path t @ ''.'']
     @ (if both_exist e dir t ia then []
        else [''Skipping diff: '' @ diff_test_file e t ia @ '' does not exist.''])"

definition diffable :: "env \<Rightarrow> string \<Rightarrow> test \<Rightarrow> string \<times> string \<Rightarrow> bool" where
  "diffable e cwd t ia =
     (case chdir e cwd (path t) of None \<Rightarrow> False | Some dir \<Rightarrow> both_exist e dir t ia)"

section \<open>Making benchmarks\<close>

text \<open>
  What \<^verbatim>\<open>make_benchmarks\<close> writes to the terminal: a line printed, or the prompt of a
  \<^verbatim>\<open>compat_input\<close>. The answers typed are a list of lines; a prompt at the end of the
  input raises \<open>EOFError\<close>.
\<close>

datatype io = Print string | Prompt string

text \<open>
  \<^verbatim>\<open>ans = ''; while ans != 'y' and ans != 'n': ans = compat_input(...)\<close>: the prompts
  shown, the answer that ended the loop (\<open>None\<close> at the end of the input) and the input
  that is left.
\<close>

fun confirm_loop :: "string list \<Rightarrow> io list \<times> string option \<times> string list" where
  "confirm_loop [] = ([Prompt ''Create new benchmarks? [y/n] ''], None, [])"
| "confirm_loop (a # rest) =
     (if a \<noteq> ''y'' \<and> a \<noteq> ''n''
      then (case confirm_loop rest of
              (out, ans, rest') \<Rightarrow> (Prompt ''Create new benchmarks? [y/n] '' # out, ans, rest'))
      else ([Prompt ''Create new benchmarks? [y/n] ''], Some a, rest))"

definition confirm_answer :: "string list \<Rightarrow> string option" where
  "confirm_answer stdin = fst (snd (confirm_loop stdin))"

text \<open>
  The loop over \<^verbatim>\<open>test_programs.items()\<close> that fills the dictionary \<^verbatim>\<open>vcs\<close>: the
  code id of a program under version control, an id typed by the user otherwise. The
  dictionaries are association lists in the order of iteration.
\<close>

fun vcs_loop :: "(string \<times> test_program) list \<Rightarrow> string list
    \<Rightarrow> io list \<times> string list \<times> (string \<times> string) list option" where
  "vcs_loop [] stdin = ([], stdin, Some [])"
| "vcs_loop ((key, program) # ps) stdin =
     (case vcs_code_id program of
        Some code_id \<Rightarrow>
          (case vcs_loop ps stdin of
             (out, rest, r) \<Rightarrow> (out, rest, map_option (\<lambda>v. (key, code_id) # v) r))
      | None \<Rightarrow>
          (case stdin of
             [] \<Rightarrow> ([Print ''Program not under (known) version control system'',
                     Prompt (''Enter revision id for '' @ key @ '': '')], [], None)
           | a # stdin' \<Rightarrow>
               (case vcs_loop ps stdin' of
                  (out, rest, r) \<Rightarrow>
                    (Print ''Program not under (known) version control system''
                       # Prompt (''Enter revision id for '' @ key @ '': '') # out,
                     rest, map_option (\<lambda>v. (key, a) # v) r))))"

text \<open>\<^verbatim>\<open>sep.join(xs)\<close>\<close>

fun join_with :: "string \<Rightarrow> string list \<Rightarrow> string" where
  "join_with sep [] = []"
| "join_with sep [x] = x"
| "join_with sep (x # y # ys) = x @ sep @ join_with sep (y # ys)"

text \<open>The benchmark label from the version control information.\<close>

definition benchmark_label :: "(string \<times> string) list \<Rightarrow> string" where
  "benchmark_label vcs =
     (if length vcs = 1 then snd (hd vcs)
      else join_with ''.'' (map (\<lambda>(key, code_id). key @ ''-'' @ code_id) vcs))"

text \<open>
  What a call of \<^verbatim>\<open>make_benchmarks\<close> has done: the terminal output, the input left,
  the calls of \<^verbatim>\<open>test.create_new_benchmarks(benchmark, copy_files_since)\<close>, the
  paths given to \<^verbatim>\<open>config.read\<close>, the configuration files written with the
  benchmark set in them, and the exception that left the function, if any.

  Modelled from the spec: \<^verbatim>\<open>create_new_benchmarks\<close> (a method of the library's
  \<^verbatim>\<open>Test\<close>) copies the test outputs to benchmark files under the new label; here a
  call of it is recorded.
\<close>

record 'a benchmark_report =
  mb_out :: "io list"
  mb_stdin :: "string list"
  mb_created :: "(test \<times> string \<times> 'a) list"
  mb_config_read :: "string list"
  mb_config_written :: "(string \<times> string) list"
  mb_raised :: "error option"

text \<open>
  The configuration files as the update of the userconfig file meets them.
  \<^verbatim>\<open>config.read(p)\<close> ignores a file that cannot be opened and leaves the parser
  empty, raises a parsing error on a file that is not a configuration file, and fills the
  parser otherwise; \<open>config_read p\<close> tells which: \<open>Unparsable\<close>, \<open>No_user_section\<close>
  (the parser has no section \<^verbatim>\<open>[user]\<close>: the file is missing, unreadable or lacks the
  section) or \<open>User_section\<close>. \<^verbatim>\<open>config.set('user', 'benchmark', benchmark)\<close> raises
  \<open>NoSectionError\<close> without that section. \<open>can_write p\<close> tells whether
  \<^verbatim>\<open>open(p, 'w')\<close> succeeds; it raises \<open>IOError\<close> otherwise.
\<close>

datatype config_content = Unparsable | No_user_section | User_section

record config_files =
  config_read :: "string \<Rightarrow> config_content"
  can_write :: "string \<Rightarrow> bool"

text \<open>
  \<^verbatim>\<open>make_benchmarks\<close> from the comment \<^verbatim>\<open># Get vcs info.\<close> on, after the lines
  \<open>out\<close> were written: the version control information, the label, the benchmarks of
  every test, then the update of the userconfig file when a path is given.
\<close>

definition create_benchmarks :: "config_files \<Rightarrow> (string \<times> test_program) list \<Rightarrow> test list
    \<Rightarrow> string \<Rightarrow> 'a \<Rightarrow> io list \<Rightarrow> string list \<Rightarrow> 'a benchmark_report" where
  "create_benchmarks cf test_programs tests userconfig copy_files_since out stdin =
     (case vcs_loop test_programs stdin of
        (out', rest, None) \<Rightarrow>
          \<lparr>mb_out = out @ out', mb_stdin = rest, mb_created = [], mb_config_read = [],
           mb_config_written = [], mb_raised = Some EOFError\<rparr>
      | (out', rest, Some vcs) \<Rightarrow>
          (let benchmark = benchmark_label vcs;
               created = map (\<lambda>t. (t, benchmark, copy_files_since)) tests;
               setting = Print (''Setting new benchmark in userconfig to be '' @ benchmark @ ''.'')
           in if userconfig \<noteq> [] then
                (case config_read cf userconfig of
                   Unparsable \<Rightarrow>
                     \<lparr>mb_out = out @ out' @ [setting], mb_stdin = rest, mb_created = created,
                      mb_config_read = [userconfig], mb_config_written = [],
                      mb_raised = Some ParsingError\<rparr>
                 | No_user_section \<Rightarrow>
                     \<lparr>mb_out = out @ out' @ [setting], mb_stdin = rest, mb_created = created,
                      mb_config_read = [userconfig], mb_config_written = [],
                      mb_raised = Some NoSectionError\<rparr>
                 | User_section \<Rightarrow>
                     if \<not> can_write cf userconfig
                     then \<lparr>mb_out = out @ out' @ [setting], mb_stdin = rest,
                           mb_created = created, mb_config_read = [userconfig],
                           mb_config_written = [], mb_raised = Some IOError\<rparr>
                     else \<lparr>mb_out = out @ out' @ [setting], mb_stdin = rest,
                           mb_created = created, mb_config_read = [userconfig],
                           mb_config_written = [(userconfig, benchmark)],
                           mb_raised = None\<rparr>)
              else \<lparr>mb_out = out @ out', mb_stdin = rest, mb_created = created,
                    mb_config_read = [], mb_config_written = [], mb_raised = None\<rparr>))"

definition make_benchmarks :: "config_files \<Rightarrow> (string \<times> test_program) list \<Rightarrow> test list
    \<Rightarrow> string \<Rightarrow> 'a \<Rightarrow> string list \<Rightarrow> 'a benchmark_report" where
  "make_benchmarks cf test_programs tests userconfig copy_files_since stdin =
     (if npassed tests \<noteq> nran tests then
        (case confirm_loop stdin of
           (out, None, rest) \<Rightarrow>
             \<lparr>mb_out = Print ''Not all tests passed.'' # out, mb_stdin = rest, mb_created = [],
              mb_config_read = [], mb_config_written = [], mb_raised = Some EOFError\<rparr>
         | (out, Some ans, rest) \<Rightarrow>
             if ans \<noteq> ''y''
             then \<lparr>mb_out = Print ''Not all tests passed.'' # out, mb_stdin = rest,
                   mb_created = [], mb_config_read = [], mb_config_written = [],
                   mb_raised = None\<rparr>
             else create_benchmarks cf test_programs tests userconfig copy_files_since
                    (Print ''Not all tests passed.'' # out) rest)
      else create_benchmarks cf test_programs tests userconfig copy_files_since [] stdin)"

text \<open>
  The prompt of the confirmation.
\<close>

definition confirm_prompt :: io where
  "confirm_prompt = Prompt ''Create new benchmarks? [y/n] ''"

section \<open>Sample data\<close>

text \<open>A test with the given path, sub-runs, processor requirement and status triple.\<close>

definition sample_program :: test_program where
  "sample_program = \<lparr>exe = ''prog.x'', test_id = ''t1'', benchmark = ''b1'',
     vcs_code_id = Some ''r42''\<rparr>"

definition sample_test :: "string \<Rightarrow> (string \<times> string) list \<Rightarrow> int \<Rightarrow> int \<times> int \<times> int \<Rightarrow> test" where
  "sample_test p ia n st = \<lparr>path = p, inputs_args = ia, nprocs = n, min_nprocs = 0,
     max_nprocs = 1024, override_nprocs = False, test_program = sample_program,
     status = st\<rparr>"

text \<open>
  Outcomes of \<^verbatim>\<open>run_test\<close>, test lists and interleavings for the scenarios: two tests
  on 2 and 3 processors, one serial test, a serial test next to a test on 2 processors.
\<close>

definition always :: "outcome \<Rightarrow> nat \<Rightarrow> outcome" where "always out i = out"

definition tests_2_3 :: "test list" where
  "tests_2_3 = [sample_test ''a'' [([], [])] 2 (0, 0, 0), sample_test ''b'' [([], [])] 3 (0, 0, 0)]"

definition tests_serial :: "test list" where
  "tests_serial = [sample_test ''a'' [([], [])] 0 (0, 0, 0)]"

definition tests_0_2 :: "test list" where
  "tests_0_2 = [sample_test ''a'' [([], [])] 0 (0, 0, 0), sample_test ''b'' [([], [])] 2 (0, 0, 0)]"

definition schedule_b :: "choice list" where
  "schedule_b = [Main, Main, Worker 0, Worker 0, Worker 0, Worker 0, Worker 1, Worker 1, Worker 1]"

definition schedule_c :: "choice list" where
  "schedule_c = [Main, Worker 0, Worker 0, Worker 0, Worker 0, Worker 0]"

definition schedule_d :: "choice list" where
  "schedule_d = [Main, Main, Worker 0, Worker 0, Worker 0, Worker 1, Worker 1, Worker 1]"

definition schedule_e :: "choice list" where
  "schedule_e = [Main, Worker 0, Worker 0, Worker 0, Worker 0]"

definition schedule_f :: "choice list" where
  "schedule_f = [Worker 0, Worker 0, Worker 0, Worker 0]"
definition schedule_g :: "choice list" where
  "schedule_g = [Main, Worker 0, Worker 0, Worker 0, Worker 0, Worker 0, Worker 0, Worker 0,
     Worker 0]"

text \<open>
  An environment with the test output of one sub-run and its benchmark in place, a test
  with two sub-runs, and a test that overrides the number of processors with a value
  above its maximum.
\<close>

definition sample_env :: env where
  "sample_env =
     \<lparr>filestem_test = ''test.out'', filestem_benchmark = ''benchmark.out'',
      testcode_filename = (\<lambda>stem file_id inp args. stem @ ''.'' @ file_id @ ''.inp='' @ inp),
      path_join = (\<lambda>a b. a @ ''/'' @ b),
      path_exists = (\<lambda>cwd p. p \<in> set [''a/test.out.t1.inp=x'', ''test.out.t1.inp=x'',
                                         ''benchmark.out.b1.inp=x'']),
      chdir = (\<lambda>cwd p. Some p),
      verify_job = (\<lambda>t inp args verbose.
                      (fst (status t) + 1, fst (snd (status t)), snd (snd (status t)) + 1))\<rparr>"

definition two_subruns :: test where
  "two_subruns = sample_test ''a'' [(''x'', []), (''y'', [])] 1 (0, 0, 0)"

definition overriding_test :: test where
  "overriding_test = \<lparr>path = ''big'', inputs_args = [([], [])], nprocs = 8, min_nprocs = 0,
     max_nprocs = 4, override_nprocs = True, test_program = sample_program,
     status = (0, 0, 0)\<rparr>"

text \<open>A selection that keeps every test.\<close>

definition select_all :: "test list \<Rightarrow> string list \<Rightarrow> test list" where
  "select_all tests categories = tests"

text \<open>
  A test with four sub-runs of which three passed.
\<close>

definition failing_test :: test where
  "failing_test = sample_test ''c'' [(''1'', []), (''2'', []), (''3'', []), (''4'', [])] 1 (3, 0, 4)"

text \<open>
  Configuration files: only \<^verbatim>\<open>userconfig\<close> has a section \<^verbatim>\<open>[user]\<close>,
  \<^verbatim>\<open>notes.txt\<close> is not a configuration file, and every file can be written.
\<close>

definition sample_config :: config_files where
  "sample_config =
     \<lparr>config_read = (\<lambda>p. if p = ''userconfig'' then User_section
                          else if p = ''notes.txt'' then Unparsable else No_user_section),
      can_write = (\<lambda>p. True)\<rparr>"

text \<open>Configuration files that have the section but cannot be written.\<close>

definition read_only_config :: config_files where
  "read_only_config = \<lparr>config_read = (\<lambda>p. User_section), can_write = (\<lambda>p. False)\<rparr>"

section \<open>Properties of the status aggregation\<close>

lemma statuses_sum_mset:
  "sum_list (map f (statuses tests)) = sum_mset (image_mset (\<lambda>t. f (get_status t)) (mset tests))"
proof -
  have "sum_list (map f (statuses tests)) = sum_list (map (\<lambda>t. f (get_status t)) tests)"
    by (simp add: statuses_def comp_def)
  also have "\<dots> = sum_mset (mset (map (\<lambda>t. f (get_status t)) tests))"
    by (simp only: sum_mset_sum_list)
  finally show ?thesis by simp
qed

lemma npassed_perm: "mset tests = mset tests' \<Longrightarrow> npassed tests = npassed tests'"
  by (simp add: npassed_def statuses_sum_mset)

lemma nwarning_perm: "mset tests = mset tests' \<Longrightarrow> nwarning tests = nwarning tests'"
  by (simp add: nwarning_def statuses_sum_mset)

lemma nran_perm: "mset tests = mset tests' \<Longrightarrow> nran tests = nran tests'"
  by (simp add: nran_def statuses_sum_mset)

text \<open>
  C4. The exit code of \<open>end_status\<close> is \<open>0\<close> exactly when
  \<open>npassed + nwarning = nran\<close>, otherwise it is \<open>1\<close>, the three numbers being the sums
  of the first, second and third components of the status triples; and a permutation of
  the test list changes neither the footer nor the exit code.
\<close>

theorem end_status_exit_code:
  "(snd (end_status tests skipped verbose) = 0
      \<longleftrightarrow> npassed tests + nwarning tests = nran tests)
   \<and> snd (end_status tests skipped verbose) \<in> {0, 1}
   \<and> npassed tests = (\<Sum>t\<leftarrow>tests. fst (get_status t))
   \<and> nwarning tests = (\<Sum>t\<leftarrow>tests. fst (snd (get_status t)))
   \<and> nran tests = (\<Sum>t\<leftarrow>tests. snd (snd (get_status t)))
   \<and> (mset tests = mset tests' \<longrightarrow>
        end_status tests' skipped verbose = end_status tests skipped verbose)"
proof -
  have code: "(snd (end_status tests skipped verbose) = 0
      \<longleftrightarrow> npassed tests + nwarning tests = nran tests)"
    by (auto simp: end_status_def Let_def)
  have range: "snd (end_status tests skipped verbose) \<in> {0, 1}"
    by (simp add: end_status_def Let_def)
  have sums: "npassed tests = (\<Sum>t\<leftarrow>tests. fst (get_status t))"
    "nwarning tests = (\<Sum>t\<leftarrow>tests. fst (snd (get_status t)))"
    "nran tests = (\<Sum>t\<leftarrow>tests. snd (snd (get_status t)))"
    by (simp_all add: npassed_def nwarning_def nran_def statuses_def comp_def)
  have perm: "mset tests = mset tests' \<longrightarrow>
        end_status tests' skipped verbose = end_status tests skipped verbose"
  proof
    assume p: "mset tests = mset tests'"
    have "npassed tests' = npassed tests" "nwarning tests' = nwarning tests"
      "nran tests' = nran tests"
      using p npassed_perm nwarning_perm nran_perm by metis+
    then show "end_status tests' skipped verbose = end_status tests skipped verbose"
      by (simp add: end_status_def)
  qed
  from code range sums perm show ?thesis by blast
qed

theorem end_status_exit_code_witness:
  "mset [sample_test ''a'' [] 1 (1, 0, 1), sample_test ''b'' [] 1 (0, 1, 2)]
     = mset [sample_test ''b'' [] 1 (0, 1, 2), sample_test ''a'' [] 1 (1, 0, 1)]
   \<and> end_status [sample_test ''b'' [] 1 (0, 1, 2), sample_test ''a'' [] 1 (1, 0, 1)] 0 True
     = end_status [sample_test ''a'' [] 1 (1, 0, 1), sample_test ''b'' [] 1 (0, 1, 2)] 0 True
   \<and> snd (end_status [sample_test ''a'' [] 1 (1, 0, 1), sample_test ''b'' [] 1 (0, 1, 2)] 0 True) = 1"
proof -
  have p: "mset [sample_test ''a'' [] 1 (1, 0, 1), sample_test ''b'' [] 1 (0, 1, 2)]
     = mset [sample_test ''b'' [] 1 (0, 1, 2), sample_test ''a'' [] 1 (1, 0, 1)]"
    by (simp add: add_mset_commute)
  have n: "npassed [sample_test ''a'' [] 1 (1, 0, 1), sample_test ''b'' [] 1 (0, 1, 2)]
         + nwarning [sample_test ''a'' [] 1 (1, 0, 1), sample_test ''b'' [] 1 (0, 1, 2)]
         \<noteq> nran [sample_test ''a'' [] 1 (1, 0, 1), sample_test ''b'' [] 1 (0, 1, 2)]"
    by (simp add: npassed_def nwarning_def nran_def statuses_def get_status_def sample_test_def)
  from p n end_status_exit_code
    [of "[sample_test ''a'' [] 1 (1, 0, 1), sample_test ''b'' [] 1 (0, 1, 2)]" 0 True
        "[sample_test ''b'' [] 1 (0, 1, 2), sample_test ''a'' [] 1 (1, 0, 1)]"]
  show ?thesis by auto
qed

section \<open>Properties of the scheduler\<close>

lemma sum_list_map_update:
  fixes f :: "'a \<Rightarrow> nat"
  shows "i < length xs \<Longrightarrow> sum_list (map f (xs[i := y])) + f (xs ! i) = sum_list (map f xs) + f y"
proof (induction xs arbitrary: i)
  case Nil
  then show ?case by simp
next
  case (Cons x xs)
  then show ?case by (cases i) auto
qed

lemma sched_invI:
  assumes "length (workers s) = length tests"
    and "sem_value s + sum_list (map acquired (workers s))
          = sem_bound s + sum_list (map released (workers s))"
    and "\<And>i. i < length tests \<Longrightarrow> worker_ok (nprocs_used (tests ! i)) (oc i) (workers s ! i)"
    and "\<And>i. i < length tests \<Longrightarrow> is_acquiring (workers s ! i) = (lock_owner s = Some i)"
    and "\<And>i. i < length tests \<Longrightarrow> started s \<le> i \<Longrightarrow> pc (workers s ! i) = Not_started"
  shows "sched_inv tests oc s"
  using assms by (simp add: sched_inv_def list_all_iff)

lemma sched_invD:
  assumes "sched_inv tests oc s"
  shows "length (workers s) = length tests"
    and "sem_value s + sum_list (map acquired (workers s))
          = sem_bound s + sum_list (map released (workers s))"
    and "\<And>i. i < length tests \<Longrightarrow> worker_ok (nprocs_used (tests ! i)) (oc i) (workers s ! i)"
    and "\<And>i. i < length tests \<Longrightarrow> is_acquiring (workers s ! i) = (lock_owner s = Some i)"
    and "\<And>i. i < length tests \<Longrightarrow> started s \<le> i \<Longrightarrow> pc (workers s ! i) = Not_started"
  using assms by (simp_all add: sched_inv_def list_all_iff)

lemma initial_inv: "sched_inv tests oc (initial tests cap)"
  by (rule sched_invI) (simp_all add: initial_def worker_ok_def is_acquiring_def map_replicate_const sum_list_replicate)


lemma sum_list_less:
  fixes f g :: "'a \<Rightarrow> nat"
  assumes "\<And>x. x \<in> set xs \<Longrightarrow> f x \<le> g x" and "y \<in> set xs" and "f y < g y"
  shows "sum_list (map f xs) < sum_list (map g xs)"
  using assms
proof (induction xs)
  case Nil
  then show ?case by simp
next
  case (Cons x xs)
  have le: "sum_list (map f xs) \<le> sum_list (map g xs)"
    by (rule sum_list_mono) (simp add: Cons.prems(1))
  show ?case
  proof (cases "y = x")
    case True
    with Cons.prems(3) le show ?thesis by simp
  next
    case False
    with Cons.prems have "y \<in> set xs" by simp
    with Cons.IH Cons.prems have "sum_list (map f xs) < sum_list (map g xs)" by simp
    moreover have "f x \<le> g x" by (simp add: Cons.prems(1))
    ultimately show ?thesis by simp
  qed
qed

lemma worker_ok_le: "worker_ok n out w \<Longrightarrow> released w \<le> acquired w"
  by (auto simp: worker_ok_def split: pc.splits)

lemma release_has_room:
  assumes inv: "sched_inv tests oc s" and i: "i < length tests"
    and h: "released (workers s ! i) < acquired (workers s ! i)"
  shows "sem_value s < sem_bound s"
proof -
  note d = sched_invD[OF inv]
  from i d(1) have il: "i < length (workers s)" by simp
  have "sum_list (map released (workers s)) < sum_list (map acquired (workers s))"
  proof (rule sum_list_less)
    fix x assume "x \<in> set (workers s)"
    then obtain j where "j < length (workers s)" "x = workers s ! j"
      by (auto simp: in_set_conv_nth)
    with d(1) d(3)[of j] show "released x \<le> acquired x"
      by (simp add: worker_ok_le)
  next
    show "workers s ! i \<in> set (workers s)" using il by simp
  next
    show "released (workers s ! i) < acquired (workers s ! i)" by (rule h)
  qed
  with d(2) show ?thesis by linarith
qed

lemma inv_update:
  assumes inv: "sched_inv tests oc s" and i: "i < length tests"
    and ws: "workers s' = (workers s)[i := w']"
    and bound: "sem_bound s' = sem_bound s"
    and units: "sem_value s' + acquired w' + released (workers s ! i)
                  = sem_value s + acquired (workers s ! i) + released w'"
    and ok: "worker_ok (nprocs_used (tests ! i)) (oc i) w'"
    and others: "\<And>j. j < length tests \<Longrightarrow> j \<noteq> i \<Longrightarrow>
                   (lock_owner s' = Some j) = (lock_owner s = Some j)"
    and own: "is_acquiring w' = (lock_owner s' = Some i)"
    and st: "started s' = started s" and npc: "pc w' \<noteq> Not_started"
    and opc: "pc (workers s ! i) \<noteq> Not_started"
  shows "sched_inv tests oc s'"
proof (rule sched_invI)
  note d = sched_invD[OF inv]
  from i d(1) have il: "i < length (workers s)" by simp
  show "length (workers s') = length tests" using ws d(1) by simp
  have a: "sum_list (map acquired (workers s')) + acquired (workers s ! i)
             = sum_list (map acquired (workers s)) + acquired w'"
    unfolding ws by (rule sum_list_map_update[OF il])
  have r: "sum_list (map released (workers s')) + released (workers s ! i)
             = sum_list (map released (workers s)) + released w'"
    unfolding ws by (rule sum_list_map_update[OF il])
  from a r units d(2) bound
  show "sem_value s' + sum_list (map acquired (workers s'))
          = sem_bound s' + sum_list (map released (workers s'))"
    by linarith
next
  fix j assume j: "j < length tests"
  note d = sched_invD[OF inv]
  from j d(1) have jl: "j < length (workers s)" by simp
  show "worker_ok (nprocs_used (tests ! j)) (oc j) (workers s' ! j)"
    using ok d(3)[OF j] jl by (cases "j = i") (simp_all add: ws)
  show "is_acquiring (workers s' ! j) = (lock_owner s' = Some j)"
    using own others[OF j] d(4)[OF j] jl by (cases "j = i") (simp_all add: ws)
  show "pc (workers s' ! j) = Not_started" if "started s' \<le> j"
    using that d(5)[OF j] opc st jl by (cases "j = i") (auto simp: ws)
qed

lemma worker_step_inv:
  assumes inv: "sched_inv tests oc s" and st: "worker_step tests oc i s = Some s'"
  shows "sched_inv tests oc s'"
proof -
  note d = sched_invD[OF inv]
  from st have i: "i < length tests" and il: "i < length (workers s)"
    by (auto simp: worker_step_def split: if_splits)
  let ?w = "workers s ! i"
  let ?n = "nprocs_used (tests ! i)"
  note ok = d(3)[OF i] and lk = d(4)
  have less: "released ?w < acquired ?w \<Longrightarrow> sem_value s < sem_bound s"
    by (rule release_has_room[OF inv i])
  show ?thesis
  proof (cases "pc ?w")
    case Not_started
    with st i il show ?thesis by (simp add: worker_step_def)
  next
    case At_lock
    with st i il have l: "lock_owner s = None"
      and s': "s' = set_worker i (?w\<lparr>pc := Acquire_loop 0\<rparr>) (s\<lparr>lock_owner := Some i\<rparr>)"
      by (auto simp: worker_step_def Let_def split: if_splits)
    show ?thesis
      using ok At_lock l lk
      by (intro inv_update[OF inv i, where w' = "?w\<lparr>pc := Acquire_loop 0\<rparr>"])
         (auto simp: s' set_worker_def worker_ok_def is_acquiring_def)
  next
    case (Acquire_loop k)
    show ?thesis
    proof (cases "k < ?n")
      case True
      with st i il Acquire_loop have pos: "0 < sem_value s"
        and s': "s' = set_worker i (?w\<lparr>pc := Acquire_loop (Suc k), acquired := Suc (acquired ?w)\<rparr>)
                        (s\<lparr>sem_value := sem_value s - 1\<rparr>)"
        by (auto simp: worker_step_def Let_def split: if_splits)
      show ?thesis
        using ok Acquire_loop True pos lk[OF i]
        by (intro inv_update[OF inv i, where w' = "?w\<lparr>pc := Acquire_loop (Suc k), acquired := Suc (acquired ?w)\<rparr>"])
           (auto simp: s' set_worker_def worker_ok_def is_acquiring_def)
    next
      case False
      with st i il Acquire_loop have
        s': "s' = set_worker i (?w\<lparr>pc := In_run_test\<rparr>)
                        (s\<lparr>lock_owner := None, run_calls := run_calls s @ [i]\<rparr>)"
        by (auto simp: worker_step_def Let_def split: if_splits)
      have own: "lock_owner s = Some i" using lk[OF i] Acquire_loop by (simp add: is_acquiring_def)
      show ?thesis
        using ok Acquire_loop False own
        by (intro inv_update[OF inv i, where w' = "?w\<lparr>pc := In_run_test\<rparr>"])
           (auto simp: s' set_worker_def worker_ok_def is_acquiring_def)
    qed
  next
    case In_run_test
    with lk[OF i] have nown: "lock_owner s \<noteq> Some i" by (simp add: is_acquiring_def)
    show ?thesis
    proof (cases "oc i")
      case Returns
      with st i il In_run_test have s': "s' = set_worker i (?w\<lparr>pc := Release_loop 0\<rparr>) s"
        by (auto simp: worker_step_def Let_def)
      show ?thesis
        using ok In_run_test nown Returns
        by (intro inv_update[OF inv i, where w' = "?w\<lparr>pc := Release_loop 0\<rparr>"])
           (auto simp: s' set_worker_def worker_ok_def is_acquiring_def)
    next
      case Raises
      with st i il In_run_test have s': "s' = set_worker i (?w\<lparr>pc := Died\<rparr>) s"
        by (auto simp: worker_step_def Let_def)
      show ?thesis
        using ok In_run_test nown Raises
        by (intro inv_update[OF inv i, where w' = "?w\<lparr>pc := Died\<rparr>"])
           (auto simp: s' set_worker_def worker_ok_def is_acquiring_def)
    qed
  next
    case (Release_loop k)
    with lk[OF i] have nown: "lock_owner s \<noteq> Some i" by (simp add: is_acquiring_def)
    show ?thesis
    proof (cases "k < ?n")
      case True
      with ok Release_loop have "released ?w < acquired ?w" by (simp add: worker_ok_def)
      then have room: "sem_value s < sem_bound s" by (rule less)
      with st i il Release_loop True have
        s': "s' = set_worker i (?w\<lparr>pc := Release_loop (Suc k), released := Suc (released ?w)\<rparr>)
                        (s\<lparr>sem_value := sem_value s + 1\<rparr>)"
        by (auto simp: worker_step_def Let_def)
      show ?thesis
        using ok Release_loop True nown
        by (intro inv_update[OF inv i, where w' = "?w\<lparr>pc := Release_loop (Suc k), released := Suc (released ?w)\<rparr>"])
           (auto simp: s' set_worker_def worker_ok_def is_acquiring_def)
    next
      case False
      with st i il Release_loop have s': "s' = set_worker i (?w\<lparr>pc := Finished\<rparr>) s"
        by (auto simp: worker_step_def Let_def)
      show ?thesis
        using ok Release_loop False nown
        by (intro inv_update[OF inv i, where w' = "?w\<lparr>pc := Finished\<rparr>"])
           (auto simp: s' set_worker_def worker_ok_def is_acquiring_def)
    qed
  next
    case Finished
    with st i il show ?thesis by (simp add: worker_step_def)
  next
    case Died
    with st i il show ?thesis by (simp add: worker_step_def)
  qed
qed


lemma main_step_inv:
  assumes inv: "sched_inv tests oc s" and st: "main_step s = Some s'"
  shows "sched_inv tests oc s'"
proof -
  note d = sched_invD[OF inv]
  let ?i = "started s"
  let ?w = "workers s ! ?i"
  from st d(1) have i: "?i < length tests"
    and s': "s' = set_worker ?i (?w\<lparr>pc := At_lock\<rparr>) (s\<lparr>started := Suc ?i\<rparr>)"
    by (auto simp: main_step_def split: if_splits)
  from d(5)[OF i] have ns: "pc ?w = Not_started" by simp
  from i d(1) have il: "?i < length (workers s)" by simp
  show ?thesis
  proof (rule sched_invI)
    show "length (workers s') = length tests" using d(1) by (simp add: s' set_worker_def)
    have a: "sum_list (map acquired (workers s')) + acquired ?w
               = sum_list (map acquired (workers s)) + acquired (?w\<lparr>pc := At_lock\<rparr>)"
      unfolding s' set_worker_def using sum_list_map_update[OF il, of acquired] by simp
    have r: "sum_list (map released (workers s')) + released ?w
               = sum_list (map released (workers s)) + released (?w\<lparr>pc := At_lock\<rparr>)"
      unfolding s' set_worker_def using sum_list_map_update[OF il, of released] by simp
    from a r d(2)
    show "sem_value s' + sum_list (map acquired (workers s'))
            = sem_bound s' + sum_list (map released (workers s'))"
      by (simp add: s' set_worker_def)
  next
    fix j assume j: "j < length tests"
    from j d(1) have jl: "j < length (workers s)" by simp
    show "worker_ok (nprocs_used (tests ! j)) (oc j) (workers s' ! j)"
      using d(3)[OF j] ns jl
      by (cases "j = ?i") (auto simp: s' set_worker_def worker_ok_def)
    show "is_acquiring (workers s' ! j) = (lock_owner s' = Some j)"
      using d(4)[OF j] ns jl
      by (cases "j = ?i") (auto simp: s' set_worker_def is_acquiring_def)
    show "pc (workers s' ! j) = Not_started" if "started s' \<le> j"
      using that d(5)[OF j] jl by (cases "j = ?i") (auto simp: s' set_worker_def)
  qed
qed

lemma step_inv:
  "sched_inv tests oc s \<Longrightarrow> step tests oc c s = Some s' \<Longrightarrow> sched_inv tests oc s'"
  by (cases c) (auto simp: step_def intro: main_step_inv worker_step_inv)

lemma exec_inv: "sched_inv tests oc s \<Longrightarrow> sched_inv tests oc (exec tests oc cs s)"
proof (induction cs arbitrary: s)
  case Nil
  then show ?case by simp
next
  case (Cons c cs)
  show ?case
  proof (cases "step tests oc c s")
    case None
    with Cons show ?thesis by simp
  next
    case (Some s')
    with Cons.prems have "sched_inv tests oc s'" by (auto intro: step_inv)
    with Cons.IH Some show ?thesis by simp
  qed
qed

lemma step_bound: "step tests oc c s = Some s' \<Longrightarrow> sem_bound s' = sem_bound s"
  by (cases c)
     (auto simp: step_def main_step_def worker_step_def set_worker_def Let_def
           split: if_splits pc.splits outcome.splits)

lemma exec_bound: "sem_bound (exec tests oc cs s) = sem_bound s"
proof (induction cs arbitrary: s)
  case Nil
  then show ?case by simp
next
  case (Cons c cs)
  then show ?case by (cases "step tests oc c s") (simp_all add: step_bound)
qed

lemma map_nth_field: "map (\<lambda>i. f (xs ! i)) [0..<length xs] = map f xs"
proof -
  have "map (\<lambda>i. f (xs ! i)) [0..<length xs] = map f (map (\<lambda>i. xs ! i) [0..<length xs])"
    by (simp only: map_map comp_def)
  then show ?thesis by (simp only: map_nth)
qed

lemma running_units_le:
  assumes inv: "sched_inv tests oc s"
  shows "running_units tests s + sem_value s \<le> sem_bound s"
proof -
  note d = sched_invD[OF inv]
  let ?run = "\<lambda>i. if pc (workers s ! i) = In_run_test then nprocs_used (tests ! i) else 0"
  have "sum_list (map (\<lambda>i. ?run i + released (workers s ! i)) [0..<length tests])
          \<le> sum_list (map (\<lambda>i. acquired (workers s ! i)) [0..<length tests])"
  proof (rule sum_list_mono)
    fix i assume "i \<in> set [0..<length tests]"
    then have "i < length tests" by simp
    from d(3)[OF this] show "?run i + released (workers s ! i) \<le> acquired (workers s ! i)"
      by (auto simp: worker_ok_def split: pc.splits)
  qed
  moreover have "map (\<lambda>i. acquired (workers s ! i)) [0..<length tests] = map acquired (workers s)"
    using map_nth_field[of acquired "workers s"] d(1) by simp
  moreover have "map (\<lambda>i. released (workers s ! i)) [0..<length tests] = map released (workers s)"
    using map_nth_field[of released "workers s"] d(1) by simp
  ultimately have "running_units tests s + sum_list (map released (workers s))
          \<le> sum_list (map acquired (workers s))"
    by (simp add: running_units_def sum_list_addf)
  with d(2) show ?thesis by linarith
qed


lemma own_step_progress:
  assumes inv: "sched_inv tests oc s" and i: "i < length tests" and ret: "oc i = Returns"
    and pa: "past_acquire (workers s ! i)" and nf: "pc (workers s ! i) \<noteq> Finished"
  shows "\<exists>s'. worker_step tests oc i s = Some s' \<and> past_acquire (workers s' ! i)
           \<and> Suc (steps_left (nprocs_used (tests ! i)) (workers s' ! i))
               = steps_left (nprocs_used (tests ! i)) (workers s ! i)"
proof -
  note d = sched_invD[OF inv]
  from i d(1) have il: "i < length (workers s)" by simp
  let ?w = "workers s ! i"
  let ?n = "nprocs_used (tests ! i)"
  note ok = d(3)[OF i]
  from pa nf consider "pc ?w = In_run_test" | k where "pc ?w = Release_loop k"
    by (auto simp: past_acquire_def split: pc.splits)
  then show ?thesis
  proof cases
    case 1
    with i il ret show ?thesis
      by (simp add: worker_step_def set_worker_def past_acquire_def steps_left_def Let_def)
  next
    case 2
    show ?thesis
    proof (cases "k < ?n")
      case True
      with ok 2 have "released ?w < acquired ?w" by (simp add: worker_ok_def)
      from release_has_room[OF inv i this] 2 True i il show ?thesis
        by (auto simp: worker_step_def set_worker_def past_acquire_def steps_left_def Let_def)
    next
      case False
      with ok 2 have "k = ?n" by (simp add: worker_ok_def)
      with 2 i il show ?thesis
        by (simp add: worker_step_def set_worker_def past_acquire_def steps_left_def Let_def)
    qed
  qed
qed

lemma other_step_frame:
  assumes inv: "sched_inv tests oc s" and i: "i < length tests"
    and st: "step tests oc c s = Some s'" and c: "c \<noteq> Worker i"
    and ns: "pc (workers s ! i) \<noteq> Not_started"
  shows "workers s' ! i = workers s ! i"
proof (cases c)
  case Main
  note d = sched_invD[OF inv]
  from d(5)[OF i] ns have "started s \<noteq> i" by auto
  with st Main show ?thesis
    by (auto simp: step_def main_step_def set_worker_def split: if_splits)
next
  case (Worker j)
  with c have "j \<noteq> i" by simp
  with st Worker show ?thesis
    by (auto simp: step_def worker_step_def set_worker_def Let_def
             split: if_splits pc.splits outcome.splits)
qed

lemma worker_finishes:
  assumes "sched_inv tests oc s" and "i < length tests" and "oc i = Returns"
    and "past_acquire (workers s ! i)"
    and "steps_left (nprocs_used (tests ! i)) (workers s ! i) \<le> count_list cs (Worker i)"
  shows "pc (workers (exec tests oc cs s) ! i) = Finished"
  using assms
proof (induction cs arbitrary: s)
  case Nil
  then show ?case
    by (auto simp: steps_left_def past_acquire_def split: pc.splits)
next
  case (Cons c cs)
  note inv = Cons.prems(1) and i = Cons.prems(2) and ret = Cons.prems(3)
    and pa = Cons.prems(4) and cnt = Cons.prems(5)
  let ?n = "nprocs_used (tests ! i)"
  show ?case
  proof (cases "pc (workers s ! i) = Finished")
    case True
    then have z: "steps_left ?n (workers s ! i) = 0" by (simp add: steps_left_def)
    show ?thesis
    proof (cases "step tests oc c s")
      case None
      with Cons.IH[OF inv i ret pa] z show ?thesis by simp
    next
      case (Some s')
      have ne: "c \<noteq> Worker i"
        using Some True i by (auto simp: step_def worker_step_def Let_def split: if_splits)
      have ns: "pc (workers s ! i) \<noteq> Not_started" using True by simp
      have same: "workers s' ! i = workers s ! i"
        by (rule other_step_frame[OF inv i Some ne ns])
      have inv': "sched_inv tests oc s'" by (rule step_inv[OF inv Some])
      from Cons.IH[OF inv' i ret] same pa z Some show ?thesis by simp
    qed
  next
    case False
    show ?thesis
    proof (cases "c = Worker i")
      case True
      from own_step_progress[OF inv i ret pa False] obtain s' where
        st: "worker_step tests oc i s = Some s'" and pa': "past_acquire (workers s' ! i)"
        and dec: "Suc (steps_left ?n (workers s' ! i)) = steps_left ?n (workers s ! i)"
        by blast
      from st True have st': "step tests oc c s = Some s'" by (simp add: step_def)
      have inv': "sched_inv tests oc s'" by (rule step_inv[OF inv st'])
      from cnt True dec have "steps_left ?n (workers s' ! i) \<le> count_list cs (Worker i)"
        by simp
      from Cons.IH[OF inv' i ret pa' this] st' show ?thesis by simp
    next
      case ne: False
      then have cnt': "steps_left ?n (workers s ! i) \<le> count_list cs (Worker i)"
        using cnt by simp
      show ?thesis
      proof (cases "step tests oc c s")
        case None
        with Cons.IH[OF inv i ret pa cnt'] show ?thesis by simp
      next
        case (Some s')
        have ns: "pc (workers s ! i) \<noteq> Not_started"
          using pa by (auto simp: past_acquire_def)
        have same: "workers s' ! i = workers s ! i"
          by (rule other_step_frame[OF inv i Some ne ns])
        have inv': "sched_inv tests oc s'" by (rule step_inv[OF inv Some])
        from Cons.IH[OF inv' i ret] same pa cnt' Some show ?thesis by simp
      qed
    qed
  qed
qed

section \<open>Properties of \<^verbatim>\<open>run_tests\<close>\<close>

lemmas run_simps = run_tests_def truthy_def initial_def step_def main_step_def worker_step_def
        set_worker_def nprocs_used_def sample_test_def always_def

lemma fold_max_Max: "fold max (map f xs) (f x) = Max (f ` set (x # xs))"
proof -
  have "Max (set (f x # map f xs)) = fold max (map f xs) (f x)"
    by (rule Max.set_eq_fold)
  then show ?thesis by simp
qed

lemma run_tests_gateD:
  assumes "gate (run_tests tests cluster_queue tot_nprocs oc schedule) = Some s"
  shows "\<exists>cap. 0 < cap \<and> s = exec tests oc schedule (initial tests cap)
           \<and> int cap = (if tot_nprocs \<le> 0 \<and> truthy cluster_queue
                         then sum_list (map nprocs tests) else tot_nprocs)
           \<and> (\<forall>t \<in> set tests. nprocs t \<le> int cap)"
proof -
  define tot where "tot = (if tot_nprocs \<le> 0 \<and> truthy cluster_queue
                then sum_list (map nprocs tests) else tot_nprocs)"
  have rt: "run_tests tests cluster_queue tot_nprocs oc schedule =
     (if tot > 0 then
           (case tests of
              [] \<Rightarrow> \<lparr>called = [], gate = None, raised = Some ValueError\<rparr>
            | t # ts \<Rightarrow>
                (let max_test_nprocs = fold max (map nprocs ts) (nprocs t) in
                 if max_test_nprocs > tot
                 then \<lparr>called = [], gate = None,
                        raised = Some (TestCodeError max_test_nprocs tot)\<rparr>
                 else (let s = exec tests oc schedule (initial tests (nat tot))
                       in \<lparr>called = run_calls s, gate = Some s, raised = None\<rparr>)))
         else (case run_sequential oc [0..<length tests] of
                 (c, e) \<Rightarrow> \<lparr>called = c, gate = None, raised = e\<rparr>))"
    unfolding run_tests_def tot_def Let_def ..
  from assms have pos: "0 < tot"
    unfolding rt by (auto split: if_splits prod.splits)
  from assms pos obtain t ts where ts: "tests = t # ts"
    unfolding rt by (cases tests) auto
  from assms pos ts have le: "\<not> fold max (map nprocs ts) (nprocs t) > tot"
    unfolding rt by (auto simp: Let_def split: if_splits)
  from assms pos ts le have s: "s = exec tests oc schedule (initial tests (nat tot))"
    unfolding rt by (auto simp: Let_def)
  from le have "\<not> Max (nprocs ` set tests) > tot"
    unfolding ts fold_max_Max .
  then have m: "Max (nprocs ` set tests) \<le> tot"
    by (rule leI)
  have "\<forall>u \<in> set tests. nprocs u \<le> tot"
  proof
    fix u assume "u \<in> set tests"
    then have "nprocs u \<le> Max (nprocs ` set tests)" by simp
    with m show "nprocs u \<le> tot" by simp
  qed
  with pos s have "0 < nat tot \<and> s = exec tests oc schedule (initial tests (nat tot))
           \<and> int (nat tot) = tot \<and> (\<forall>t \<in> set tests. nprocs t \<le> int (nat tot))"
    by simp
  then show ?thesis unfolding tot_def by (rule exI)
qed

lemma run_tests_gate_inv:
  assumes "gate (run_tests tests cluster_queue tot_nprocs oc schedule) = Some s"
  shows "sched_inv tests oc s"
proof -
  from run_tests_gateD[OF assms] obtain cap where
    "s = exec tests oc schedule (initial tests cap)" by blast
  then show ?thesis by (simp add: exec_inv initial_inv)
qed

text \<open>
  C1. In a concurrent run with \<open>tot_nprocs > 0\<close>, after any interleaving of the main
  thread and the workers, the sum of \<^verbatim>\<open>max(1, test.nprocs)\<close> over the tests inside
  \<^verbatim>\<open>run_test\<close> is at most \<open>tot_nprocs\<close> (together with the value of the semaphore
  it is at most the semaphore's initial value, which is \<open>tot_nprocs\<close>); a worker inside
  \<^verbatim>\<open>run_test\<close> has acquired all of its units and released none; and a worker inside
  the acquisition loop owns the lock.
\<close>

theorem run_tests_budget_invariant:
  assumes "0 < tot_nprocs"
    and "gate (run_tests tests cluster_queue tot_nprocs oc schedule) = Some s"
  shows "running_units tests s \<le> nat tot_nprocs
    \<and> running_units tests s + sem_value s \<le> sem_bound s
    \<and> sem_bound s = nat tot_nprocs
    \<and> (\<forall>i < length tests. pc (workers s ! i) = In_run_test \<longrightarrow>
          acquired (workers s ! i) = nprocs_used (tests ! i) \<and> released (workers s ! i) = 0)
    \<and> (\<forall>i < length tests. is_acquiring (workers s ! i) \<longrightarrow> lock_owner s = Some i)"
proof -
  note inv = run_tests_gate_inv[OF assms(2)]
  note d = sched_invD[OF inv]
  from run_tests_gateD[OF assms(2)] assms(1) obtain cap where
    s: "s = exec tests oc schedule (initial tests cap)" and cap: "int cap = tot_nprocs"
    by auto
  have b: "sem_bound s = nat tot_nprocs"
    using cap by (simp add: s exec_bound initial_def)
  have r: "running_units tests s + sem_value s \<le> sem_bound s"
    by (rule running_units_le[OF inv])
  have w: "\<forall>i < length tests. pc (workers s ! i) = In_run_test \<longrightarrow>
          acquired (workers s ! i) = nprocs_used (tests ! i) \<and> released (workers s ! i) = 0"
  proof (intro allI impI)
    fix i assume "i < length tests" and "pc (workers s ! i) = In_run_test"
    with d(3)[of i] show "acquired (workers s ! i) = nprocs_used (tests ! i)
         \<and> released (workers s ! i) = 0"
      by (simp add: worker_ok_def)
  qed
  have l: "\<forall>i < length tests. is_acquiring (workers s ! i) \<longrightarrow> lock_owner s = Some i"
    using d(4) by simp
  from b r w l show ?thesis by simp
qed

theorem run_tests_budget_invariant_witness:
  "(0::int) < 3
   \<and> gate (run_tests tests_2_3 None 3 (always Returns) schedule_b)
       = Some \<lparr>sem_value = 0, sem_bound = 3, lock_owner = Some 1,
           workers = [\<lparr>pc = In_run_test, acquired = 2, released = 0\<rparr>,
                      \<lparr>pc = Acquire_loop 1, acquired = 1, released = 0\<rparr>],
           started = 2, run_calls = [0]\<rparr>
   \<and> running_units tests_2_3 \<lparr>sem_value = 0, sem_bound = 3, lock_owner = Some 1,
           workers = [\<lparr>pc = In_run_test, acquired = 2, released = 0\<rparr>,
                      \<lparr>pc = Acquire_loop 1, acquired = 1, released = 0\<rparr>],
           started = 2, run_calls = [0]\<rparr> \<le> nat 3"
proof -
  have g: "gate (run_tests tests_2_3 None 3 (always Returns) schedule_b)
       = Some \<lparr>sem_value = 0, sem_bound = 3, lock_owner = Some 1,
           workers = [\<lparr>pc = In_run_test, acquired = 2, released = 0\<rparr>,
                      \<lparr>pc = Acquire_loop 1, acquired = 1, released = 0\<rparr>],
           started = 2, run_calls = [0]\<rparr>"
    by (simp add: tests_2_3_def schedule_b_def run_simps)
  have p: "(0::int) < 3" by simp
  from run_tests_budget_invariant[OF p g] g p show ?thesis by blast
qed

text \<open>
  C2. With \<open>tot_nprocs > 0\<close> and a test whose \<open>nprocs\<close> exceeds it,
  \<^verbatim>\<open>run_tests\<close> raises \<open>TestCodeError\<close> (reporting the largest requirement and
  the budget) with no call of \<^verbatim>\<open>run_test\<close> and no semaphore, lock or thread
  created, whatever the cluster queue, the outcomes and the interleaving.
\<close>

theorem run_tests_fails_fast:
  assumes "0 < tot_nprocs" and "t \<in> set tests" and "tot_nprocs < nprocs t"
  shows "run_tests tests cluster_queue tot_nprocs oc schedule
           = \<lparr>called = [], gate = None,
              raised = Some (TestCodeError (Max (nprocs ` set tests)) tot_nprocs)\<rparr>"
proof -
  from assms(2) obtain u us where ts: "tests = u # us" by (cases tests) auto
  have "nprocs t \<le> Max (nprocs ` set tests)" using assms(2) by simp
  with assms(3) have "tot_nprocs < Max (nprocs ` set tests)" by simp
  then have "tot_nprocs < fold max (map nprocs us) (nprocs u)"
    unfolding ts fold_max_Max .
  with assms(1) show ?thesis
    unfolding ts fold_max_Max[symmetric]
    by (simp add: run_tests_def Let_def)
qed

theorem run_tests_fails_fast_witness:
  "(0::int) < 1
   \<and> sample_test ''a'' [([], [])] 2 (0, 0, 0) \<in> set [sample_test ''a'' [([], [])] 2 (0, 0, 0)]
   \<and> 1 < nprocs (sample_test ''a'' [([], [])] 2 (0, 0, 0))
   \<and> run_tests [sample_test ''a'' [([], [])] 2 (0, 0, 0)] None 1 (always Returns) schedule_c
       = \<lparr>called = [], gate = None, raised = Some (TestCodeError 2 1)\<rparr>"
proof -
  have p: "(0::int) < 1" by simp
  have m: "sample_test ''a'' [([], [])] 2 (0, 0, 0) \<in> set [sample_test ''a'' [([], [])] 2 (0, 0, 0)]"
    by simp
  have n: "1 < nprocs (sample_test ''a'' [([], [])] 2 (0, 0, 0))" by (simp add: sample_test_def)
  have x: "Max (nprocs ` set [sample_test ''a'' [([], [])] 2 (0, 0, 0)]) = 2"
    by (simp add: sample_test_def)
  from run_tests_fails_fast[OF p m n, of None "always Returns" schedule_c] x p m n
  show ?thesis by simp
qed

text \<open>
  C3, as stated, fails: when \<^verbatim>\<open>run_test\<close> raises, the worker thread ends with
  its unit acquired and never released (there is no \<^verbatim>\<open>try/finally\<close> around the
  call), and it makes no further step.
\<close>

theorem worker_keeps_units_when_run_test_raises:
  "gate (run_tests tests_serial None 1 (always Raises) schedule_c)
     = Some \<lparr>sem_value = 0, sem_bound = 1, lock_owner = None,
          workers = [\<lparr>pc = Died, acquired = 1, released = 0\<rparr>],
          started = 1, run_calls = [0]\<rparr>
   \<and> worker_step tests_serial (always Raises) 0
        \<lparr>sem_value = 0, sem_bound = 1, lock_owner = None,
          workers = [\<lparr>pc = Died, acquired = 1, released = 0\<rparr>],
          started = 1, run_calls = [0]\<rparr> = None"
  by (simp add: tests_serial_def schedule_c_def run_simps)

text \<open>
  C3, amended. In every state of a concurrent run: a worker that has returned has
  acquired and released exactly \<^verbatim>\<open>max(1, test.nprocs)\<close> units, and its
  \<^verbatim>\<open>run_test\<close> returned; a worker whose thread died has acquired that many units
  and released none, and its \<^verbatim>\<open>run_test\<close> raised (so a release never fails); and
  a worker inside a \<^verbatim>\<open>run_test\<close> that returns has returned, with all its units
  released, after any continuation of the interleaving that schedules it
  \<open>nprocs_used + 2\<close> times: its release phase never blocks.
\<close>

theorem worker_releases_what_it_acquired:
  assumes "gate (run_tests tests cluster_queue tot_nprocs oc schedule) = Some s"
    and "i < length tests"
  shows "(pc (workers s ! i) = Finished \<longrightarrow>
            oc i = Returns \<and> acquired (workers s ! i) = nprocs_used (tests ! i)
            \<and> released (workers s ! i) = nprocs_used (tests ! i))
    \<and> (pc (workers s ! i) = Died \<longrightarrow>
            oc i = Raises \<and> acquired (workers s ! i) = nprocs_used (tests ! i)
            \<and> released (workers s ! i) = 0)
    \<and> (oc i = Returns \<and> pc (workers s ! i) = In_run_test
          \<and> nprocs_used (tests ! i) + 2 \<le> count_list cs (Worker i) \<longrightarrow>
            pc (workers (exec tests oc cs s) ! i) = Finished
            \<and> acquired (workers (exec tests oc cs s) ! i) = nprocs_used (tests ! i)
            \<and> released (workers (exec tests oc cs s) ! i) = nprocs_used (tests ! i))"
proof -
  note inv = run_tests_gate_inv[OF assms(1)]
  note ok = sched_invD(3)[OF inv assms(2)]
  have fin: "pc (workers s ! i) = Finished \<longrightarrow>
            oc i = Returns \<and> acquired (workers s ! i) = nprocs_used (tests ! i)
            \<and> released (workers s ! i) = nprocs_used (tests ! i)"
    using ok by (auto simp: worker_ok_def)
  have died: "pc (workers s ! i) = Died \<longrightarrow>
            oc i = Raises \<and> acquired (workers s ! i) = nprocs_used (tests ! i)
            \<and> released (workers s ! i) = 0"
    using ok by (auto simp: worker_ok_def)
  have prog: "oc i = Returns \<and> pc (workers s ! i) = In_run_test
          \<and> nprocs_used (tests ! i) + 2 \<le> count_list cs (Worker i) \<longrightarrow>
            pc (workers (exec tests oc cs s) ! i) = Finished
            \<and> acquired (workers (exec tests oc cs s) ! i) = nprocs_used (tests ! i)
            \<and> released (workers (exec tests oc cs s) ! i) = nprocs_used (tests ! i)"
  proof
    assume h: "oc i = Returns \<and> pc (workers s ! i) = In_run_test
          \<and> nprocs_used (tests ! i) + 2 \<le> count_list cs (Worker i)"
    then have pa: "past_acquire (workers s ! i)"
      and sl: "steps_left (nprocs_used (tests ! i)) (workers s ! i) \<le> count_list cs (Worker i)"
      by (simp_all add: past_acquire_def steps_left_def)
    from h have ret: "oc i = Returns" by simp
    have f: "pc (workers (exec tests oc cs s) ! i) = Finished"
      by (rule worker_finishes[OF inv assms(2) ret pa sl])
    have "sched_inv tests oc (exec tests oc cs s)" by (rule exec_inv[OF inv])
    from sched_invD(3)[OF this assms(2)] f
    show "pc (workers (exec tests oc cs s) ! i) = Finished
            \<and> acquired (workers (exec tests oc cs s) ! i) = nprocs_used (tests ! i)
            \<and> released (workers (exec tests oc cs s) ! i) = nprocs_used (tests ! i)"
      by (simp add: worker_ok_def)
  qed
  from fin died prog show ?thesis by blast
qed

theorem worker_releases_what_it_acquired_witness:
  "gate (run_tests tests_2_3 None 5 (always Returns) schedule_e)
     = Some \<lparr>sem_value = 3, sem_bound = 5, lock_owner = None,
          workers = [\<lparr>pc = In_run_test, acquired = 2, released = 0\<rparr>,
                     \<lparr>pc = Not_started, acquired = 0, released = 0\<rparr>],
          started = 1, run_calls = [0]\<rparr>
   \<and> 0 < length tests_2_3
   \<and> always Returns 0 = Returns
   \<and> nprocs_used (tests_2_3 ! 0) + 2 \<le> count_list schedule_f (Worker 0)
   \<and> pc (workers (exec tests_2_3 (always Returns) schedule_f
        \<lparr>sem_value = 3, sem_bound = 5, lock_owner = None,
          workers = [\<lparr>pc = In_run_test, acquired = 2, released = 0\<rparr>,
                     \<lparr>pc = Not_started, acquired = 0, released = 0\<rparr>],
          started = 1, run_calls = [0]\<rparr>) ! 0) = Finished
   \<and> released (workers (exec tests_2_3 (always Returns) schedule_f
        \<lparr>sem_value = 3, sem_bound = 5, lock_owner = None,
          workers = [\<lparr>pc = In_run_test, acquired = 2, released = 0\<rparr>,
                     \<lparr>pc = Not_started, acquired = 0, released = 0\<rparr>],
          started = 1, run_calls = [0]\<rparr>) ! 0) = 2
   \<and> gate (run_tests tests_2_3 None 5 (always Returns) schedule_g)
     = Some \<lparr>sem_value = 5, sem_bound = 5, lock_owner = None,
          workers = [\<lparr>pc = Finished, acquired = 2, released = 2\<rparr>,
                     \<lparr>pc = Not_started, acquired = 0, released = 0\<rparr>],
          started = 1, run_calls = [0]\<rparr>
   \<and> gate (run_tests tests_serial None 1 (always Raises) schedule_c)
     = Some \<lparr>sem_value = 0, sem_bound = 1, lock_owner = None,
          workers = [\<lparr>pc = Died, acquired = 1, released = 0\<rparr>],
          started = 1, run_calls = [0]\<rparr>
   \<and> 0 < length tests_serial
   \<and> always Raises 0 = Raises
   \<and> nprocs_used (tests_serial ! 0) = 1"
proof -
  let ?s = "\<lparr>sem_value = 3, sem_bound = 5, lock_owner = None,
          workers = [\<lparr>pc = In_run_test, acquired = 2, released = 0\<rparr>,
                     \<lparr>pc = Not_started, acquired = 0, released = 0\<rparr>],
          started = 1, run_calls = [0]\<rparr>"
  let ?f = "\<lparr>sem_value = 5, sem_bound = 5, lock_owner = None,
          workers = [\<lparr>pc = Finished, acquired = 2, released = 2\<rparr>,
                     \<lparr>pc = Not_started, acquired = 0, released = 0\<rparr>],
          started = 1, run_calls = [0]\<rparr>"
  let ?d = "\<lparr>sem_value = 0, sem_bound = 1, lock_owner = None,
          workers = [\<lparr>pc = Died, acquired = 1, released = 0\<rparr>],
          started = 1, run_calls = [0]\<rparr>"
  have g: "gate (run_tests tests_2_3 None 5 (always Returns) schedule_e) = Some ?s"
    by (simp add: tests_2_3_def schedule_e_def run_simps)
  have gf: "gate (run_tests tests_2_3 None 5 (always Returns) schedule_g) = Some ?f"
    by (simp add: tests_2_3_def schedule_g_def run_simps)
  have gd: "gate (run_tests tests_serial None 1 (always Raises) schedule_c) = Some ?d"
    by (simp add: tests_serial_def schedule_c_def run_simps)
  have l: "0 < length tests_2_3" by (simp add: tests_2_3_def)
  have ls: "0 < length tests_serial" by (simp add: tests_serial_def)
  have r: "always Returns 0 = Returns" by (simp add: always_def)
  have p: "pc (workers ?s ! 0) = In_run_test" by simp
  have n: "nprocs_used (tests_2_3 ! 0) = 2"
    by (simp add: tests_2_3_def nprocs_used_def sample_test_def)
  have c: "nprocs_used (tests_2_3 ! 0) + 2 \<le> count_list schedule_f (Worker 0)"
    by (simp add: n schedule_f_def)
  from worker_releases_what_it_acquired[OF g l, of schedule_f] r p c n
  have a: "pc (workers (exec tests_2_3 (always Returns) schedule_f ?s) ! 0) = Finished
      \<and> released (workers (exec tests_2_3 (always Returns) schedule_f ?s) ! 0) = 2"
    by simp
  from worker_releases_what_it_acquired[OF gd ls, of "[]"]
  have b: "always Raises 0 = Raises \<and> nprocs_used (tests_serial ! 0) = 1"
    by simp
  from worker_releases_what_it_acquired[OF gf l, of "[]"]
  have "always Returns 0 = Returns" by simp
  with g gf gd l ls c a b show ?thesis by blast
qed

text \<open>
  C8 at a failing input: a serial test (\<open>nprocs = 0\<close>) and a test on 2 processors,
  submitted to a cluster queue with no total given. The capacity is the sum of
  \<open>nprocs\<close>, 2, while the workers ask for \<^verbatim>\<open>max(1, nprocs)\<close> each, 3 in all:
  with the first test running, the second worker holds one unit and is blocked on the
  semaphore.
\<close>

theorem cluster_budget_below_demand:
  "gate (run_tests tests_0_2 (Some ''PBS'') (- 1) (always Returns) schedule_d)
     = Some \<lparr>sem_value = 0, sem_bound = 2, lock_owner = Some 1,
          workers = [\<lparr>pc = In_run_test, acquired = 1, released = 0\<rparr>,
                     \<lparr>pc = Acquire_loop 1, acquired = 1, released = 0\<rparr>],
          started = 2, run_calls = [0]\<rparr>
   \<and> worker_step tests_0_2 (always Returns) 1
        \<lparr>sem_value = 0, sem_bound = 2, lock_owner = Some 1,
          workers = [\<lparr>pc = In_run_test, acquired = 1, released = 0\<rparr>,
                     \<lparr>pc = Acquire_loop 1, acquired = 1, released = 0\<rparr>],
          started = 2, run_calls = [0]\<rparr> = None
   \<and> sum_list (map nprocs tests_0_2) = 2
   \<and> sum_list (map nprocs_used tests_0_2) = 3"
  by (simp add: tests_0_2_def schedule_d_def run_simps)

section \<open>Properties of \<^verbatim>\<open>init_tests\<close>\<close>

lemma set_test_nprocs_override:
  "override_nprocs t \<Longrightarrow>
     set_test_nprocs np t = t\<lparr>nprocs := min (max (nprocs t) (min_nprocs t)) (max_nprocs t)\<rparr>"
  by (auto simp: set_test_nprocs_def Let_def min_def max_def)

text \<open>
  C7, as stated, fails: a test that overrides the number of processors with 8 and has
  \<open>max_nprocs = 4\<close> leaves \<^verbatim>\<open>init_tests\<close> with 4 processors when a global value
  is given, because the bounds are applied to every test.
\<close>

theorem init_tests_override_counterexample:
  "override_nprocs overriding_test \<and> (0::int) \<le> 2 \<and> nprocs overriding_test = 8
   \<and> map nprocs (init_tests_set_nprocs 2 [overriding_test]) = [4]
   \<and> map nprocs (init_tests select_all [overriding_test] [''_all_''] 2) = [4]"
  by (simp add: overriding_test_def init_tests_def select_all_def init_tests_set_nprocs_def
        set_test_nprocs_def)

text \<open>
  C7, amended. With a non-negative global value, a test whose \<open>override_nprocs\<close> flag
  is set never takes the global value: only its \<open>nprocs\<close> changes, to its own value
  raised to \<open>min_nprocs\<close> and then lowered to \<open>max_nprocs\<close>; the test is unchanged
  when its value lies within the two bounds; and the result is the same for every
  non-negative global value.
\<close>

theorem init_tests_override_nprocs:
  assumes "0 \<le> nprocs_opt" and "i < length tests" and "override_nprocs (tests ! i)"
  shows "init_tests_set_nprocs nprocs_opt tests ! i
           = (tests ! i)\<lparr>nprocs := min (max (nprocs (tests ! i)) (min_nprocs (tests ! i)))
                                       (max_nprocs (tests ! i))\<rparr>
    \<and> (min_nprocs (tests ! i) \<le> nprocs (tests ! i) \<and> nprocs (tests ! i) \<le> max_nprocs (tests ! i)
         \<longrightarrow> init_tests_set_nprocs nprocs_opt tests ! i = tests ! i)
    \<and> (0 \<le> other \<longrightarrow>
         init_tests_set_nprocs other tests ! i = init_tests_set_nprocs nprocs_opt tests ! i)"
proof -
  let ?t = "tests ! i"
  have a: "init_tests_set_nprocs nprocs_opt tests ! i
           = ?t\<lparr>nprocs := min (max (nprocs ?t) (min_nprocs ?t)) (max_nprocs ?t)\<rparr>"
    using assms by (simp add: init_tests_set_nprocs_def set_test_nprocs_override)
  have b: "min_nprocs ?t \<le> nprocs ?t \<and> nprocs ?t \<le> max_nprocs ?t
         \<longrightarrow> init_tests_set_nprocs nprocs_opt tests ! i = ?t"
    unfolding a by (simp add: min_def max_def)
  have c: "0 \<le> other \<longrightarrow>
         init_tests_set_nprocs other tests ! i = init_tests_set_nprocs nprocs_opt tests ! i"
    unfolding a using assms(2,3) by (simp add: init_tests_set_nprocs_def set_test_nprocs_override)
  from a b c show ?thesis by blast
qed

theorem init_tests_override_nprocs_witness:
  "(0::int) \<le> 2 \<and> 0 < length [overriding_test\<lparr>nprocs := 3\<rparr>, overriding_test]
   \<and> override_nprocs ([overriding_test\<lparr>nprocs := 3\<rparr>, overriding_test] ! 0)
   \<and> min_nprocs (overriding_test\<lparr>nprocs := 3\<rparr>) \<le> nprocs (overriding_test\<lparr>nprocs := 3\<rparr>)
   \<and> nprocs (overriding_test\<lparr>nprocs := 3\<rparr>) \<le> max_nprocs (overriding_test\<lparr>nprocs := 3\<rparr>)
   \<and> (0::int) \<le> 1
   \<and> init_tests_set_nprocs 2 [overriding_test\<lparr>nprocs := 3\<rparr>, overriding_test] ! 0
       = overriding_test\<lparr>nprocs := 3\<rparr>
   \<and> init_tests_set_nprocs 1 [overriding_test\<lparr>nprocs := 3\<rparr>, overriding_test] ! 0
       = init_tests_set_nprocs 2 [overriding_test\<lparr>nprocs := 3\<rparr>, overriding_test] ! 0"
proof -
  have p: "(0::int) \<le> 2" and q: "(0::int) \<le> 1" by simp_all
  have l: "0 < length [overriding_test\<lparr>nprocs := 3\<rparr>, overriding_test]" by simp
  have ov: "override_nprocs ([overriding_test\<lparr>nprocs := 3\<rparr>, overriding_test] ! 0)"
    by (simp add: overriding_test_def)
  have r: "min_nprocs (overriding_test\<lparr>nprocs := 3\<rparr>) \<le> nprocs (overriding_test\<lparr>nprocs := 3\<rparr>)"
    "nprocs (overriding_test\<lparr>nprocs := 3\<rparr>) \<le> max_nprocs (overriding_test\<lparr>nprocs := 3\<rparr>)"
    by (simp_all add: overriding_test_def)
  from init_tests_override_nprocs[OF p l ov, of 1] r q
  have "init_tests_set_nprocs 2 [overriding_test\<lparr>nprocs := 3\<rparr>, overriding_test] ! 0
       = overriding_test\<lparr>nprocs := 3\<rparr>
   \<and> init_tests_set_nprocs 1 [overriding_test\<lparr>nprocs := 3\<rparr>, overriding_test] ! 0
       = init_tests_set_nprocs 2 [overriding_test\<lparr>nprocs := 3\<rparr>, overriding_test] ! 0"
    by simp
  with p q l ov r show ?thesis by blast
qed

section \<open>Properties of \<^verbatim>\<open>compare_tests\<close>\<close>

lemma compare_test_file_verify [simp]:
  "compare_test_file e (verify e verbose t ia') ia = compare_test_file e t ia"
  by (simp add: compare_test_file_def verify_def)

lemma has_test_file_verify [simp]:
  "has_test_file e cwd (verify e verbose t ia') = has_test_file e cwd t"
  by (rule ext) (simp add: has_test_file_def)

lemma skip_line_verify [simp]: "skip_line e (verify e verbose t ia') = skip_line e t"
  by (rule ext) (simp add: skip_line_def)

lemma path_verify [simp]: "path (verify e verbose t ia) = path t"
  by (simp add: verify_def)

lemma compare_subrun_cases:
  "compare_subrun e cwd verbose (t, n, out, calls) ia =
     (if has_test_file e cwd t ia
      then (verify e verbose t ia, n, out, calls @ [(path t, fst ia, snd ia)])
      else (t, n + 1, out @ (if verbose then [skip_line e t ia] else []), calls))"
  by (simp add: compare_subrun_def has_test_file_def verify_def skip_line_def Let_def)

lemma compare_inner:
  "foldl (compare_subrun e cwd verbose) (t, n, out, calls) ias =
     (foldl (verify e verbose) t (filter (has_test_file e cwd t) ias),
      n + int (length (filter (\<lambda>ia. \<not> has_test_file e cwd t ia) ias)),
      out @ (if verbose then map (skip_line e t) (filter (\<lambda>ia. \<not> has_test_file e cwd t ia) ias)
             else []),
      calls @ map (\<lambda>ia. (path t, fst ia, snd ia)) (filter (has_test_file e cwd t) ias))"
proof (induction ias arbitrary: t n out calls)
  case Nil
  then show ?case by simp
next
  case (Cons ia ias)
  show ?case
  proof (cases "has_test_file e cwd t ia")
    case True
    then show ?thesis
      by (simp add: compare_subrun_cases Cons.IH)
  next
    case False
    then show ?thesis
      by (simp add: compare_subrun_cases Cons.IH)
  qed
qed

lemma sub_runs_Cons:
  "sub_runs (t # ts) = map (\<lambda>ia. (t, ia)) (inputs_args t) @ sub_runs ts"
  by (simp add: sub_runs_def)

lemma compare_outer:
  "compare_loop e cwd verbose tests (n, out, calls) =
     (map (\<lambda>t. foldl (verify e verbose) t (filter (has_test_file e cwd t) (inputs_args t))) tests,
      n + int (length (filter (\<lambda>(t, ia). \<not> has_test_file e cwd t ia) (sub_runs tests))),
      out @ (if verbose
             then map (\<lambda>(t, ia). skip_line e t ia)
                    (filter (\<lambda>(t, ia). \<not> has_test_file e cwd t ia) (sub_runs tests))
             else []),
      calls @ map (\<lambda>(t, ia). (path t, fst ia, snd ia))
                (filter (\<lambda>(t, ia). has_test_file e cwd t ia) (sub_runs tests)))"
proof (induction tests arbitrary: n out calls)
  case Nil
  then show ?case by (simp add: sub_runs_def)
next
  case (Cons t ts)
  show ?case
    by (simp add: compare_inner Cons.IH sub_runs_Cons filter_map comp_def)
qed

text \<open>
  C5. \<^verbatim>\<open>compare_tests\<close> returns the number of sub-runs whose test file does not
  exist; \<^verbatim>\<open>verify_job\<close> is called for exactly the sub-runs whose test file exists,
  in order; every test leaves the call as the calls of \<^verbatim>\<open>verify_job\<close> for its
  sub-runs with a test file leave it; and the step for a sub-run without a test file
  leaves the test as it is, adds one to the count and calls nothing.
\<close>

theorem compare_tests_skips_missing:
  "nskipped (compare_tests e cwd tests verbose)
     = int (length (filter (\<lambda>(t, ia). \<not> has_test_file e cwd t ia) (sub_runs tests)))
   \<and> verify_calls (compare_tests e cwd tests verbose)
     = map (\<lambda>(t, ia). (path t, fst ia, snd ia))
         (filter (\<lambda>(t, ia). has_test_file e cwd t ia) (sub_runs tests))
   \<and> compared_tests (compare_tests e cwd tests verbose)
     = map (\<lambda>t. foldl (verify e verbose) t (filter (has_test_file e cwd t) (inputs_args t))) tests
   \<and> (\<not> has_test_file e cwd t ia \<longrightarrow>
        fst (compare_subrun e cwd verbose (t, n, out, calls) ia) = t
        \<and> fst (snd (compare_subrun e cwd verbose (t, n, out, calls) ia)) = n + 1
        \<and> snd (snd (snd (compare_subrun e cwd verbose (t, n, out, calls) ia))) = calls)"
  by (simp add: compare_tests_def compare_outer compare_subrun_cases)

theorem compare_tests_skips_missing_witness:
  "\<not> has_test_file sample_env ''.'' two_subruns (''y'', [])
   \<and> has_test_file sample_env ''.'' two_subruns (''x'', [])
   \<and> fst (compare_subrun sample_env ''.'' True (two_subruns, 0, [], []) (''y'', [])) = two_subruns
   \<and> nskipped (compare_tests sample_env ''.'' [two_subruns] True) = 1
   \<and> verify_calls (compare_tests sample_env ''.'' [two_subruns] True) = [(''a'', ''x'', [])]
   \<and> map status (compared_tests (compare_tests sample_env ''.'' [two_subruns] True)) = [(1, 0, 1)]"
proof -
  have m: "\<not> has_test_file sample_env ''.'' two_subruns (''y'', [])"
    by (simp add: has_test_file_def compare_test_file_def sample_env_def two_subruns_def
          sample_test_def sample_program_def)
  have h: "has_test_file sample_env ''.'' two_subruns (''x'', [])"
    by (simp add: has_test_file_def compare_test_file_def sample_env_def two_subruns_def
          sample_test_def sample_program_def)
  have ia: "inputs_args two_subruns = [(''x'', []), (''y'', [])]"
    by (simp add: two_subruns_def sample_test_def)
  have st: "status (verify sample_env True two_subruns (''x'', [])) = (1, 0, 1)"
    by (simp add: verify_def sample_env_def two_subruns_def sample_test_def)
  have pa: "path two_subruns = ''a''" by (simp add: two_subruns_def sample_test_def)
  note t = compare_tests_skips_missing[of sample_env "''.''" "[two_subruns]" True
      two_subruns "(''y'', [])" 0 "[]" "[]"]
  from t m h ia st pa show ?thesis
    by (simp add: sub_runs_def)
qed

section \<open>Properties of \<^verbatim>\<open>diff_tests\<close>\<close>

lemma diff_subrun_cases:
  "diff_subrun e dir diff_program verbose t (out, cmds) ia =
     (out @ (if verbose then diff_lines e dir t ia else []),
      cmds @ (if both_exist e dir t ia then [(dir, diff_command e diff_program t ia)] else []))"
  by (simp add: diff_subrun_def diff_lines_def both_exist_def diff_command_def Let_def)

lemma diff_inner:
  "foldl (diff_subrun e dir diff_program verbose t) (out, cmds) ias =
     (out @ (if verbose then concat (map (diff_lines e dir t) ias) else []),
      cmds @ map (\<lambda>ia. (dir, diff_command e diff_program t ia)) (filter (both_exist e dir t) ias))"
  by (induction ias arbitrary: out cmds) (simp_all add: diff_subrun_cases)

lemma diff_loop_quiet:
  "fst (fst (diff_loop e cwd diff_program False tests (out, cmds))) = out"
  by (induction tests arbitrary: out cmds) (simp_all add: diff_inner split: option.splits)

lemma diff_loop_cmds:
  "snd (snd (diff_loop e cwd diff_program verbose tests (out, cmds))) = None \<Longrightarrow>
   map snd (snd (fst (diff_loop e cwd diff_program verbose tests (out, cmds))))
     = map snd cmds @ map (\<lambda>(t, ia). diff_command e diff_program t ia)
         (filter (\<lambda>(t, ia). diffable e cwd t ia) (sub_runs tests))"
proof (induction tests arbitrary: out cmds)
  case Nil
  then show ?case by (simp add: sub_runs_def)
next
  case (Cons t ts)
  from Cons.prems obtain dir where dir: "chdir e cwd (path t) = Some dir"
    by (cases "chdir e cwd (path t)") auto
  have f: "filter (\<lambda>(t, ia). diffable e cwd t ia) (map (\<lambda>ia. (t, ia)) (inputs_args t))
        = map (\<lambda>ia. (t, ia)) (filter (both_exist e dir t) (inputs_args t))"
    by (simp add: filter_map comp_def diffable_def dir)
  from Cons.prems dir show ?case
    by (simp add: diff_inner Cons.IH sub_runs_Cons f comp_def)
qed

text \<open>
  C9. \<^verbatim>\<open>diff_tests\<close> leaves every test, and so every status triple, as it was;
  when not verbose it prints nothing; when no directory change fails, the commands run are
  the diff commands of exactly the sub-runs with both files; and the step for a sub-run
  that misses the test file or the benchmark runs no command and reports the skip only
  when verbose.
\<close>

theorem diff_tests_read_only:
  "diffed_tests (diff_tests e cwd tests diff_program verbose) = tests
   \<and> map status (diffed_tests (diff_tests e cwd tests diff_program verbose)) = map status tests
   \<and> (\<not> verbose \<longrightarrow> diff_out (diff_tests e cwd tests diff_program verbose) = [])
   \<and> (diff_raised (diff_tests e cwd tests diff_program verbose) = None \<longrightarrow>
        map snd (diff_cmds (diff_tests e cwd tests diff_program verbose))
          = map (\<lambda>(t, ia). diff_command e diff_program t ia)
              (filter (\<lambda>(t, ia). diffable e cwd t ia) (sub_runs tests)))
   \<and> (\<not> path_exists e dir (diff_test_file e t ia) \<or> \<not> path_exists e dir (diff_benchmark e t ia)
        \<longrightarrow> diff_subrun e dir diff_program verbose t (out, cmds) ia
            = (out @ (if verbose
                      then [''Diffing '' @ diff_benchmark e t ia @ '' and '' @ diff_test_file e t ia
                              @ '' in '' @ path t @ ''.'',
                            ''Skipping diff: '' @ diff_test_file e t ia @ '' does not exist.'']
                      else []),
               cmds))"
proof -
  obtain o1 c1 w1 r1 where dl: "diff_loop e cwd diff_program verbose tests ([], []) = ((o1, c1), w1, r1)"
    by (metis surj_pair)
  have a: "diffed_tests (diff_tests e cwd tests diff_program verbose) = tests"
    by (simp add: diff_tests_def dl)
  have q: "\<not> verbose \<longrightarrow> diff_out (diff_tests e cwd tests diff_program verbose) = []"
  proof
    assume "\<not> verbose"
    then have "fst (fst (diff_loop e cwd diff_program verbose tests ([], []))) = []"
      by (simp add: diff_loop_quiet)
    then show "diff_out (diff_tests e cwd tests diff_program verbose) = []"
      by (simp add: diff_tests_def dl)
  qed
  have c: "diff_raised (diff_tests e cwd tests diff_program verbose) = None \<longrightarrow>
        map snd (diff_cmds (diff_tests e cwd tests diff_program verbose))
          = map (\<lambda>(t, ia). diff_command e diff_program t ia)
              (filter (\<lambda>(t, ia). diffable e cwd t ia) (sub_runs tests))"
  proof
    assume "diff_raised (diff_tests e cwd tests diff_program verbose) = None"
    then have "snd (snd (diff_loop e cwd diff_program verbose tests ([], []))) = None"
      by (simp add: diff_tests_def dl)
    from diff_loop_cmds[OF this]
    show "map snd (diff_cmds (diff_tests e cwd tests diff_program verbose))
          = map (\<lambda>(t, ia). diff_command e diff_program t ia)
              (filter (\<lambda>(t, ia). diffable e cwd t ia) (sub_runs tests))"
      by (simp add: diff_tests_def dl)
  qed
  have s: "\<not> path_exists e dir (diff_test_file e t ia) \<or> \<not> path_exists e dir (diff_benchmark e t ia)
        \<longrightarrow> diff_subrun e dir diff_program verbose t (out, cmds) ia
            = (out @ (if verbose
                      then [''Diffing '' @ diff_benchmark e t ia @ '' and '' @ diff_test_file e t ia
                              @ '' in '' @ path t @ ''.'',
                            ''Skipping diff: '' @ diff_test_file e t ia @ '' does not exist.'']
                      else []),
               cmds)"
    by (auto simp: diff_subrun_def Let_def)
  from a q c s show ?thesis by simp
qed

theorem diff_tests_read_only_witness:
  "diffed_tests (diff_tests sample_env ''.'' [two_subruns] ''diff'' False) = [two_subruns]
   \<and> diff_out (diff_tests sample_env ''.'' [two_subruns] ''diff'' False) = []
   \<and> diff_raised (diff_tests sample_env ''.'' [two_subruns] ''diff'' False) = None
   \<and> map snd (diff_cmds (diff_tests sample_env ''.'' [two_subruns] ''diff'' False))
       = [''diff benchmark.out.b1.inp=x test.out.t1.inp=x'']
   \<and> \<not> path_exists sample_env ''a'' (diff_test_file sample_env two_subruns (''y'', []))
   \<and> diff_subrun sample_env ''a'' ''diff'' True two_subruns ([], []) (''y'', [])
       = ([''Diffing benchmark.out.b1.inp=y and test.out.t1.inp=y in a.'',
           ''Skipping diff: test.out.t1.inp=y does not exist.''], [])"
proof -
  have q: "\<not> False" by simp
  have ch: "chdir sample_env ''.'' (path two_subruns) = Some ''a''"
    by (simp add: sample_env_def two_subruns_def sample_test_def)
  have r: "diff_raised (diff_tests sample_env ''.'' [two_subruns] ''diff'' False) = None"
    by (simp add: diff_tests_def ch diff_inner)
  have m: "\<not> path_exists sample_env ''a'' (diff_test_file sample_env two_subruns (''y'', []))"
    by (simp add: diff_test_file_def sample_env_def two_subruns_def sample_test_def
          sample_program_def)
  have c: "map (\<lambda>(t, ia). diff_command sample_env ''diff'' t ia)
              (filter (\<lambda>(t, ia). diffable sample_env ''.'' t ia) (sub_runs [two_subruns]))
       = [''diff benchmark.out.b1.inp=x test.out.t1.inp=x'']"
    by (simp add: sub_runs_def diffable_def both_exist_def diff_command_def diff_test_file_def
          diff_benchmark_def sample_env_def two_subruns_def sample_test_def sample_program_def)
  have f: "diff_test_file sample_env two_subruns (''y'', []) = ''test.out.t1.inp=y''"
    "diff_benchmark sample_env two_subruns (''y'', []) = ''benchmark.out.b1.inp=y''"
    "path two_subruns = ''a''"
    by (simp_all add: diff_test_file_def diff_benchmark_def sample_env_def two_subruns_def
          sample_test_def sample_program_def)
  note t1 = diff_tests_read_only[of sample_env "''.''" "[two_subruns]" "''diff''" False
      "''a''" two_subruns "(''y'', [])" "[]" "[]"]
  note t2 = diff_tests_read_only[of sample_env "''.''" "[two_subruns]" "''diff''" True
      "''a''" two_subruns "(''y'', [])" "[]" "[]"]
  from t1 r c have a: "diffed_tests (diff_tests sample_env ''.'' [two_subruns] ''diff'' False) = [two_subruns]
   \<and> diff_out (diff_tests sample_env ''.'' [two_subruns] ''diff'' False) = []
   \<and> map snd (diff_cmds (diff_tests sample_env ''.'' [two_subruns] ''diff'' False))
       = [''diff benchmark.out.b1.inp=x test.out.t1.inp=x'']"
    by simp
  from t2 m have b: "diff_subrun sample_env ''a'' ''diff'' True two_subruns ([], []) (''y'', [])
       = ([''Diffing benchmark.out.b1.inp=y and test.out.t1.inp=y in a.'',
           ''Skipping diff: test.out.t1.inp=y does not exist.''], [])"
    by (simp add: f)
  from a b r m show ?thesis by blast
qed

section \<open>Properties of \<^verbatim>\<open>make_benchmarks\<close>\<close>

lemma confirm_loop_prompts: "confirm_prompt \<in> set (fst (confirm_loop stdin))"
  by (induction stdin) (auto simp: confirm_prompt_def split: prod.splits)

lemma confirm_loop_answer:
  "fst (snd (confirm_loop stdin)) = Some a \<Longrightarrow> a = ''y'' \<or> a = ''n''"
  by (induction stdin) (auto split: prod.splits if_splits)

lemma vcs_loop_no_confirm: "confirm_prompt \<notin> set (fst (vcs_loop ps stdin))"
proof (induction ps arbitrary: stdin)
  case Nil
  then show ?case by simp
next
  case (Cons kp ps)
  obtain key program where kp: "kp = (key, program)" by (cases kp)
  show ?case
  proof (cases "vcs_code_id program")
    case (Some c)
    with Cons.IH[of stdin] show ?thesis
      by (auto simp: kp split: prod.splits)
  next
    case None
    show ?thesis
    proof (cases stdin)
      case Nil
      with None show ?thesis by (simp add: kp confirm_prompt_def)
    next
      case (Cons a rest)
      with None Cons.IH[of rest] show ?thesis
        by (auto simp: kp confirm_prompt_def split: prod.splits)
    qed
  qed
qed

lemma create_benchmarks_out:
  "confirm_prompt \<in> set (mb_out (create_benchmarks cf ps tests uc since out stdin))
     \<longleftrightarrow> confirm_prompt \<in> set out"
proof -
  obtain o' rest r where v: "vcs_loop ps stdin = (o', rest, r)" by (metis surj_pair)
  from vcs_loop_no_confirm[of ps stdin] v have n: "confirm_prompt \<notin> set o'" by simp
  show ?thesis
    using n
    by (cases r)
       (auto simp: create_benchmarks_def v Let_def confirm_prompt_def
             split: config_content.splits)
qed

text \<open>
  C6. When \<open>npassed \<noteq> nran\<close> and the answer to the confirmation is not \<open>y\<close>
  (it is then \<open>n\<close>), \<^verbatim>\<open>make_benchmarks\<close> returns without an exception, with no
  call of \<^verbatim>\<open>create_new_benchmarks\<close> and with the userconfig file neither read nor
  written.
\<close>

theorem make_benchmarks_declined:
  assumes "npassed tests \<noteq> nran tests"
    and "confirm_answer stdin = Some ans" and "ans \<noteq> ''y''"
  shows "mb_created (make_benchmarks cf test_programs tests userconfig copy_files_since stdin) = []
    \<and> mb_config_read (make_benchmarks cf test_programs tests userconfig copy_files_since stdin) = []
    \<and> mb_config_written (make_benchmarks cf test_programs tests userconfig copy_files_since stdin)
        = []
    \<and> mb_raised (make_benchmarks cf test_programs tests userconfig copy_files_since stdin) = None
    \<and> ans = ''n''"
proof -
  obtain out a rest where c: "confirm_loop stdin = (out, a, rest)" by (metis surj_pair)
  from assms(2) c have a: "a = Some ans" by (simp add: confirm_answer_def)
  from confirm_loop_answer[of stdin ans] c a assms(3) have n: "ans = ''n''" by simp
  from assms(1,3) show ?thesis
    by (simp add: make_benchmarks_def c a n)
qed

theorem make_benchmarks_declined_witness:
  "npassed [failing_test] \<noteq> nran [failing_test]
   \<and> confirm_answer [''maybe'', ''n'', ''y''] = Some ''n''
   \<and> ''n'' \<noteq> ''y''
   \<and> make_benchmarks sample_config [(''prog'', sample_program)] [failing_test] ''userconfig''
        (0::nat) [''maybe'', ''n'', ''y'']
      = \<lparr>mb_out = [Print ''Not all tests passed.'', Prompt ''Create new benchmarks? [y/n] '',
                    Prompt ''Create new benchmarks? [y/n] ''],
         mb_stdin = [''y''], mb_created = [], mb_config_read = [], mb_config_written = [],
         mb_raised = None\<rparr>"
proof -
  have p: "npassed [failing_test] \<noteq> nran [failing_test]"
    by (simp add: npassed_def nran_def statuses_def get_status_def failing_test_def sample_test_def)
  have c: "confirm_answer [''maybe'', ''n'', ''y''] = Some ''n''"
    by (simp add: confirm_answer_def)
  have n: "''n'' \<noteq> ''y''" by simp
  have e: "make_benchmarks sample_config [(''prog'', sample_program)] [failing_test] ''userconfig''
        (0::nat) [''maybe'', ''n'', ''y'']
      = \<lparr>mb_out = [Print ''Not all tests passed.'', Prompt ''Create new benchmarks? [y/n] '',
                    Prompt ''Create new benchmarks? [y/n] ''],
         mb_stdin = [''y''], mb_created = [], mb_config_read = [], mb_config_written = [],
         mb_raised = None\<rparr>"
    using make_benchmarks_declined[OF p c n, of sample_config "[(''prog'', sample_program)]"
        "''userconfig''" "0::nat"]
    by (simp add: make_benchmarks_def p)
  from p c n e show ?thesis by blast
qed

text \<open>
  C10. \<^verbatim>\<open>make_benchmarks\<close> shows the confirmation prompt exactly when
  \<open>npassed \<noteq> nran\<close>. In particular, with \<open>nran = 0\<close> and \<open>npassed = 0\<close>, once the
  revision ids are obtained it calls \<^verbatim>\<open>create_new_benchmarks\<close> on every test with the
  label derived from them, with no confirmation prompt, and goes on to the userconfig
  file when a path is given: the file is read, and it is rewritten with the new label
  when it has a section \<^verbatim>\<open>[user]\<close> and can be opened for writing; a file that
  cannot be parsed raises \<open>ParsingError\<close>, without the section \<^verbatim>\<open>config.set\<close>
  raises \<open>NoSectionError\<close>, and when the file cannot be opened \<open>IOError\<close> is raised,
  with nothing written in the three cases. With no path the function returns after the
  benchmarks.
\<close>

theorem make_benchmarks_confirmation:
  "(Prompt ''Create new benchmarks? [y/n] ''
        \<in> set (mb_out (make_benchmarks cf test_programs tests userconfig copy_files_since stdin))
      \<longleftrightarrow> npassed tests \<noteq> nran tests)
   \<and> (nran tests = 0 \<and> npassed tests = 0
        \<and> vcs_loop test_programs stdin = (out, rest, Some vcs) \<longrightarrow>
        mb_created (make_benchmarks cf test_programs tests userconfig copy_files_since stdin)
          = map (\<lambda>t. (t, benchmark_label vcs, copy_files_since)) tests
        \<and> mb_stdin (make_benchmarks cf test_programs tests userconfig copy_files_since stdin)
          = rest
        \<and> Prompt ''Create new benchmarks? [y/n] ''
            \<notin> set (mb_out
                (make_benchmarks cf test_programs tests userconfig copy_files_since stdin))
        \<and> (userconfig \<noteq> [] \<longrightarrow>
             mb_config_read
                 (make_benchmarks cf test_programs tests userconfig copy_files_since stdin)
               = [userconfig])
        \<and> (userconfig \<noteq> [] \<and> config_read cf userconfig = User_section \<and> can_write cf userconfig \<longrightarrow>
             mb_config_written
                 (make_benchmarks cf test_programs tests userconfig copy_files_since stdin)
               = [(userconfig, benchmark_label vcs)]
             \<and> mb_raised
                 (make_benchmarks cf test_programs tests userconfig copy_files_since stdin)
               = None)
        \<and> (userconfig \<noteq> [] \<and> config_read cf userconfig = Unparsable \<longrightarrow>
             mb_config_written
                 (make_benchmarks cf test_programs tests userconfig copy_files_since stdin)
               = []
             \<and> mb_raised
                 (make_benchmarks cf test_programs tests userconfig copy_files_since stdin)
               = Some ParsingError)
        \<and> (userconfig \<noteq> [] \<and> config_read cf userconfig = No_user_section \<longrightarrow>
             mb_config_written
                 (make_benchmarks cf test_programs tests userconfig copy_files_since stdin)
               = []
             \<and> mb_raised
                 (make_benchmarks cf test_programs tests userconfig copy_files_since stdin)
               = Some NoSectionError)
        \<and> (userconfig \<noteq> [] \<and> config_read cf userconfig = User_section \<and> \<not> can_write cf userconfig \<longrightarrow>
             mb_config_written
                 (make_benchmarks cf test_programs tests userconfig copy_files_since stdin)
               = []
             \<and> mb_raised
                 (make_benchmarks cf test_programs tests userconfig copy_files_since stdin)
               = Some IOError)
        \<and> (userconfig = [] \<longrightarrow>
             mb_config_read
                 (make_benchmarks cf test_programs tests userconfig copy_files_since stdin)
               = []
             \<and> mb_config_written
                 (make_benchmarks cf test_programs tests userconfig copy_files_since stdin)
               = []
             \<and> mb_raised
                 (make_benchmarks cf test_programs tests userconfig copy_files_since stdin)
               = None))"
proof -
  let ?r = "make_benchmarks cf test_programs tests userconfig copy_files_since stdin"
  have iff: "confirm_prompt \<in> set (mb_out ?r) \<longleftrightarrow> npassed tests \<noteq> nran tests"
  proof (cases "npassed tests = nran tests")
    case True
    then show ?thesis
      by (simp add: make_benchmarks_def create_benchmarks_out)
  next
    case False
    obtain o1 a rest1 where c: "confirm_loop stdin = (o1, a, rest1)" by (metis surj_pair)
    from confirm_loop_prompts[of stdin] c have pr: "confirm_prompt \<in> set o1" by simp
    from False pr show ?thesis
      by (cases a) (simp_all add: make_benchmarks_def c create_benchmarks_out)
  qed
  have none: "nran tests = 0 \<and> npassed tests = 0
        \<and> vcs_loop test_programs stdin = (out, rest, Some vcs) \<longrightarrow>
        mb_created ?r = map (\<lambda>t. (t, benchmark_label vcs, copy_files_since)) tests
        \<and> mb_stdin ?r = rest
        \<and> confirm_prompt \<notin> set (mb_out ?r)
        \<and> (userconfig \<noteq> [] \<longrightarrow> mb_config_read ?r = [userconfig])
        \<and> (userconfig \<noteq> [] \<and> config_read cf userconfig = User_section \<and> can_write cf userconfig \<longrightarrow>
             mb_config_written ?r = [(userconfig, benchmark_label vcs)] \<and> mb_raised ?r = None)
        \<and> (userconfig \<noteq> [] \<and> config_read cf userconfig = Unparsable \<longrightarrow>
             mb_config_written ?r = [] \<and> mb_raised ?r = Some ParsingError)
        \<and> (userconfig \<noteq> [] \<and> config_read cf userconfig = No_user_section \<longrightarrow>
             mb_config_written ?r = [] \<and> mb_raised ?r = Some NoSectionError)
        \<and> (userconfig \<noteq> [] \<and> config_read cf userconfig = User_section \<and> \<not> can_write cf userconfig \<longrightarrow>
             mb_config_written ?r = [] \<and> mb_raised ?r = Some IOError)
        \<and> (userconfig = [] \<longrightarrow>
             mb_config_read ?r = [] \<and> mb_config_written ?r = [] \<and> mb_raised ?r = None)"
  proof
    assume h: "nran tests = 0 \<and> npassed tests = 0
        \<and> vcs_loop test_programs stdin = (out, rest, Some vcs)"
    then have eq: "npassed tests = nran tests" by simp
    from iff eq have np: "confirm_prompt \<notin> set (mb_out ?r)" by simp
    have r: "?r = create_benchmarks cf test_programs tests userconfig copy_files_since [] stdin"
      using eq by (simp add: make_benchmarks_def)
    from h have v: "vcs_loop test_programs stdin = (out, rest, Some vcs)" by simp
    have cr: "mb_created ?r = map (\<lambda>t. (t, benchmark_label vcs, copy_files_since)) tests"
      unfolding r by (auto simp: create_benchmarks_def v Let_def split: config_content.splits)
    have st: "mb_stdin ?r = rest"
      unfolding r by (auto simp: create_benchmarks_def v Let_def split: config_content.splits)
    have rd: "userconfig \<noteq> [] \<longrightarrow> mb_config_read ?r = [userconfig]"
      unfolding r by (auto simp: create_benchmarks_def v Let_def split: config_content.splits)
    have ok: "userconfig \<noteq> [] \<and> config_read cf userconfig = User_section \<and> can_write cf userconfig \<longrightarrow>
             mb_config_written ?r = [(userconfig, benchmark_label vcs)] \<and> mb_raised ?r = None"
      unfolding r by (auto simp: create_benchmarks_def v Let_def split: config_content.splits)
    have up: "userconfig \<noteq> [] \<and> config_read cf userconfig = Unparsable \<longrightarrow>
             mb_config_written ?r = [] \<and> mb_raised ?r = Some ParsingError"
      unfolding r by (auto simp: create_benchmarks_def v Let_def split: config_content.splits)
    have ns: "userconfig \<noteq> [] \<and> config_read cf userconfig = No_user_section \<longrightarrow>
             mb_config_written ?r = [] \<and> mb_raised ?r = Some NoSectionError"
      unfolding r by (auto simp: create_benchmarks_def v Let_def split: config_content.splits)
    have io: "userconfig \<noteq> [] \<and> config_read cf userconfig = User_section \<and> \<not> can_write cf userconfig \<longrightarrow>
             mb_config_written ?r = [] \<and> mb_raised ?r = Some IOError"
      unfolding r by (auto simp: create_benchmarks_def v Let_def split: config_content.splits)
    have em: "userconfig = [] \<longrightarrow>
             mb_config_read ?r = [] \<and> mb_config_written ?r = [] \<and> mb_raised ?r = None"
      unfolding r by (auto simp: create_benchmarks_def v Let_def split: config_content.splits)
    from cr st np rd ok up ns io em
    show "mb_created ?r = map (\<lambda>t. (t, benchmark_label vcs, copy_files_since)) tests
        \<and> mb_stdin ?r = rest
        \<and> confirm_prompt \<notin> set (mb_out ?r)
        \<and> (userconfig \<noteq> [] \<longrightarrow> mb_config_read ?r = [userconfig])
        \<and> (userconfig \<noteq> [] \<and> config_read cf userconfig = User_section \<and> can_write cf userconfig \<longrightarrow>
             mb_config_written ?r = [(userconfig, benchmark_label vcs)] \<and> mb_raised ?r = None)
        \<and> (userconfig \<noteq> [] \<and> config_read cf userconfig = Unparsable \<longrightarrow>
             mb_config_written ?r = [] \<and> mb_raised ?r = Some ParsingError)
        \<and> (userconfig \<noteq> [] \<and> config_read cf userconfig = No_user_section \<longrightarrow>
             mb_config_written ?r = [] \<and> mb_raised ?r = Some NoSectionError)
        \<and> (userconfig \<noteq> [] \<and> config_read cf userconfig = User_section \<and> \<not> can_write cf userconfig \<longrightarrow>
             mb_config_written ?r = [] \<and> mb_raised ?r = Some IOError)
        \<and> (userconfig = [] \<longrightarrow>
             mb_config_read ?r = [] \<and> mb_config_written ?r = [] \<and> mb_raised ?r = None)"
      by blast
  qed
  from iff none show ?thesis unfolding confirm_prompt_def by blast
qed

theorem make_benchmarks_confirmation_witness:
  "nran tests_2_3 = 0 \<and> npassed tests_2_3 = 0
   \<and> vcs_loop [(''prog'', sample_program)] [] = ([], [], Some [(''prog'', ''r42'')])
   \<and> ''userconfig'' \<noteq> []
   \<and> config_read sample_config ''userconfig'' = User_section \<and> can_write sample_config ''userconfig''
   \<and> mb_created (make_benchmarks sample_config [(''prog'', sample_program)] tests_2_3
         ''userconfig'' (0::nat) [])
       = [(tests_2_3 ! 0, ''r42'', 0), (tests_2_3 ! 1, ''r42'', 0)]
   \<and> mb_config_written (make_benchmarks sample_config [(''prog'', sample_program)] tests_2_3
         ''userconfig'' (0::nat) [])
       = [(''userconfig'', ''r42'')]
   \<and> mb_raised (make_benchmarks sample_config [(''prog'', sample_program)] tests_2_3
         ''userconfig'' (0::nat) [])
       = None
   \<and> Prompt ''Create new benchmarks? [y/n] ''
       \<notin> set (mb_out (make_benchmarks sample_config [(''prog'', sample_program)] tests_2_3
                  ''userconfig'' (0::nat) []))
   \<and> ''missing'' \<noteq> [] \<and> config_read sample_config ''missing'' = No_user_section
   \<and> mb_config_read (make_benchmarks sample_config [(''prog'', sample_program)] tests_2_3
         ''missing'' (0::nat) [])
       = [''missing'']
   \<and> mb_config_written (make_benchmarks sample_config [(''prog'', sample_program)] tests_2_3
         ''missing'' (0::nat) [])
       = []
   \<and> mb_raised (make_benchmarks sample_config [(''prog'', sample_program)] tests_2_3
         ''missing'' (0::nat) [])
       = Some NoSectionError
   \<and> ''notes.txt'' \<noteq> [] \<and> config_read sample_config ''notes.txt'' = Unparsable
   \<and> mb_raised (make_benchmarks sample_config [(''prog'', sample_program)] tests_2_3
         ''notes.txt'' (0::nat) [])
       = Some ParsingError
   \<and> config_read read_only_config ''userconfig'' = User_section
   \<and> \<not> can_write read_only_config ''userconfig''
   \<and> mb_raised (make_benchmarks read_only_config [(''prog'', sample_program)] tests_2_3
         ''userconfig'' (0::nat) [])
       = Some IOError
   \<and> mb_raised (make_benchmarks sample_config [(''prog'', sample_program)] tests_2_3
         [] (0::nat) [])
       = None
   \<and> npassed [failing_test] \<noteq> nran [failing_test]
   \<and> Prompt ''Create new benchmarks? [y/n] ''
       \<in> set (mb_out (make_benchmarks sample_config [(''prog'', sample_program)] [failing_test]
                  ''userconfig'' (0::nat) [''n'']))"
proof -
  have z: "nran tests_2_3 = 0" "npassed tests_2_3 = 0"
    by (simp_all add: npassed_def nran_def statuses_def get_status_def tests_2_3_def
          sample_test_def)
  have v: "vcs_loop [(''prog'', sample_program)] [] = ([], [], Some [(''prog'', ''r42'')])"
    by (simp add: sample_program_def)
  have u: "''userconfig'' \<noteq> []" "''missing'' \<noteq> []" "''notes.txt'' \<noteq> []" by simp_all
  have cu: "config_read sample_config ''notes.txt'' = Unparsable"
    by (simp add: sample_config_def)
  have c: "config_read sample_config ''userconfig'' = User_section" "can_write sample_config ''userconfig''"
    "config_read sample_config ''missing'' = No_user_section"
    by (simp_all add: sample_config_def)
  have ro: "config_read read_only_config ''userconfig'' = User_section"
    "\<not> can_write read_only_config ''userconfig''"
    by (simp_all add: read_only_config_def)
  have l: "benchmark_label [(''prog'', ''r42'')] = ''r42''" by (simp add: benchmark_label_def)
  have m: "map (\<lambda>t. (t, ''r42'', 0::nat)) tests_2_3
       = [(tests_2_3 ! 0, ''r42'', 0), (tests_2_3 ! 1, ''r42'', 0)]"
    by (simp add: tests_2_3_def)
  have p: "npassed [failing_test] \<noteq> nran [failing_test]"
    by (simp add: npassed_def nran_def statuses_def get_status_def failing_test_def sample_test_def)
  note t1 = make_benchmarks_confirmation[of sample_config "[(''prog'', sample_program)]" tests_2_3
      "''userconfig''" "0::nat" "[]" "[]" "[]" "[(''prog'', ''r42'')]"]
  note t2 = make_benchmarks_confirmation[of sample_config "[(''prog'', sample_program)]" tests_2_3
      "''missing''" "0::nat" "[]" "[]" "[]" "[(''prog'', ''r42'')]"]
  note t3 = make_benchmarks_confirmation[of read_only_config "[(''prog'', sample_program)]"
      tests_2_3 "''userconfig''" "0::nat" "[]" "[]" "[]" "[(''prog'', ''r42'')]"]
  note t4 = make_benchmarks_confirmation[of sample_config "[(''prog'', sample_program)]" tests_2_3
      "[]" "0::nat" "[]" "[]" "[]" "[(''prog'', ''r42'')]"]
  note t5 = make_benchmarks_confirmation[of sample_config "[(''prog'', sample_program)]"
      "[failing_test]" "''userconfig''" "0::nat" "[''n'']" "[]" "[]" "[(''prog'', ''r42'')]"]
  from t1 z v u c l m have a:
    "mb_created (make_benchmarks sample_config [(''prog'', sample_program)] tests_2_3
         ''userconfig'' (0::nat) [])
       = [(tests_2_3 ! 0, ''r42'', 0), (tests_2_3 ! 1, ''r42'', 0)]
   \<and> mb_config_written (make_benchmarks sample_config [(''prog'', sample_program)] tests_2_3
         ''userconfig'' (0::nat) [])
       = [(''userconfig'', ''r42'')]
   \<and> mb_raised (make_benchmarks sample_config [(''prog'', sample_program)] tests_2_3
         ''userconfig'' (0::nat) [])
       = None
   \<and> Prompt ''Create new benchmarks? [y/n] ''
       \<notin> set (mb_out (make_benchmarks sample_config [(''prog'', sample_program)] tests_2_3
                  ''userconfig'' (0::nat) []))"
    by simp
  from t2 z v u c have b:
    "mb_config_read (make_benchmarks sample_config [(''prog'', sample_program)] tests_2_3
         ''missing'' (0::nat) [])
       = [''missing'']
   \<and> mb_config_written (make_benchmarks sample_config [(''prog'', sample_program)] tests_2_3
         ''missing'' (0::nat) [])
       = []
   \<and> mb_raised (make_benchmarks sample_config [(''prog'', sample_program)] tests_2_3
         ''missing'' (0::nat) [])
       = Some NoSectionError"
    by simp
  note t6 = make_benchmarks_confirmation[of sample_config "[(''prog'', sample_program)]" tests_2_3
      "''notes.txt''" "0::nat" "[]" "[]" "[]" "[(''prog'', ''r42'')]"]
  from t6 z v u cu have g:
    "mb_raised (make_benchmarks sample_config [(''prog'', sample_program)] tests_2_3
         ''notes.txt'' (0::nat) [])
       = Some ParsingError"
    by simp
  from t3 z v u ro have d:
    "mb_raised (make_benchmarks read_only_config [(''prog'', sample_program)] tests_2_3
         ''userconfig'' (0::nat) [])
       = Some IOError"
    by simp
  from t4 z v have e:
    "mb_raised (make_benchmarks sample_config [(''prog'', sample_program)] tests_2_3
         [] (0::nat) [])
       = None"
    by simp
  from t5 p have f: "Prompt ''Create new benchmarks? [y/n] ''
       \<in> set (mb_out (make_benchmarks sample_config [(''prog'', sample_program)] [failing_test]
                  ''userconfig'' (0::nat) [''n'']))"
    by blast
  from z v u c cu ro a b g d e p f show ?thesis by blast
qed

end
